theory Spec2Isabelle
  imports Complex_Main "HOL-Library.Sublist" "HOL-Library.AList"
begin

section \<open>Calendar dates\<close>

text \<open>
  The services work on \<^verbatim>\<open>datetime.date\<close> values. A date is a year, a month and a day;
  Python integers are unbounded, so the three fields are \<^typ>\<open>int\<close>. The constructor of
  \<^verbatim>\<open>date\<close> raises \<^verbatim>\<open>ValueError\<close> on a year outside 1..9999, a month outside 1..12 or a
  day outside the month; the model returns the error as a value.
\<close>

datatype py_error = ValueError | OverflowError

record date =
  year :: int
  month :: int
  day :: int

definition is_leap :: "int \<Rightarrow> bool" where
  "is_leap y = (y mod 4 = 0 \<and> (y mod 100 \<noteq> 0 \<or> y mod 400 = 0))"

definition DAYS_IN_MONTH :: "int list" where
  "DAYS_IN_MONTH = [31, 28, 31, 30, 31, 30, 31, 31, 30, 31, 30, 31]"

definition DAYS_BEFORE_MONTH :: "int list" where
  "DAYS_BEFORE_MONTH = [0, 31, 59, 90, 120, 151, 181, 212, 243, 273, 304, 334]"

text \<open>Both tables are read only at a month in 1..12 (the callers check it first).\<close>

definition days_in_month :: "int \<Rightarrow> int \<Rightarrow> int" where
  "days_in_month y m =
     (if m = 2 \<and> is_leap y then 29 else DAYS_IN_MONTH ! nat (m - 1))"

definition days_before_month :: "int \<Rightarrow> int \<Rightarrow> int" where
  "days_before_month y m =
     DAYS_BEFORE_MONTH ! nat (m - 1) + (if m > 2 \<and> is_leap y then 1 else 0)"

definition days_before_year :: "int \<Rightarrow> int" where
  "days_before_year y =
     (let y1 = y - 1 in y1 * 365 + y1 div 4 - y1 div 100 + y1 div 400)"

definition valid_date :: "date \<Rightarrow> bool" where
  "valid_date d =
     (1 \<le> year d \<and> year d \<le> 9999 \<and> 1 \<le> month d \<and> month d \<le> 12 \<and>
      1 \<le> day d \<and> day d \<le> days_in_month (year d) (month d))"

definition mk_date :: "int \<Rightarrow> int \<Rightarrow> int \<Rightarrow> py_error + date" where
  "mk_date y m d =
     (let r = \<lparr>year = y, month = m, day = d\<rparr>
      in if valid_date r then Inr r else Inl ValueError)"

text \<open>\<^verbatim>\<open>d.replace(month=m, day=dd)\<close> and \<^verbatim>\<open>d.replace(year=y)\<close> build a new date through the
  constructor, so they raise where the new date does not exist.\<close>

definition replace_month_day :: "date \<Rightarrow> int \<Rightarrow> int \<Rightarrow> py_error + date" where
  "replace_month_day d m dd = mk_date (year d) m dd"

definition replace_year :: "date \<Rightarrow> int \<Rightarrow> py_error + date" where
  "replace_year d y = mk_date y (month d) (day d)"

definition toordinal :: "date \<Rightarrow> int" where
  "toordinal d =
     days_before_year (year d) + days_before_month (year d) (month d) + day d"

text \<open>Dates compare as the tuples (year, month, day); the difference of two dates is a number
  of days, the difference of their ordinals.\<close>

definition date_lt :: "date \<Rightarrow> date \<Rightarrow> bool" where
  "date_lt a b =
     (year a < year b \<or> (year a = year b \<and>
        (month a < month b \<or> (month a = month b \<and> day a < day b))))"

definition date_le :: "date \<Rightarrow> date \<Rightarrow> bool" where
  "date_le a b = (\<not> date_lt b a)"

definition days_between :: "date \<Rightarrow> date \<Rightarrow> int" where
  "days_between a b = toordinal a - toordinal b"

text \<open>Python compares the pairs \<^verbatim>\<open>(month, day)\<close> lexicographically.\<close>

definition md_gt :: "int \<times> int \<Rightarrow> int \<times> int \<Rightarrow> bool" where
  "md_gt a b = (fst a > fst b \<or> (fst a = fst b \<and> snd a > snd b))"

section \<open>Input validation (utils/validators.py)\<close>

text \<open>Characters are compared through their code points (Python's \<^verbatim>\<open>ord\<close>).\<close>

definition code_point :: "char \<Rightarrow> nat" where
  "code_point c = of_char c"

definition is_digit :: "char \<Rightarrow> bool" where
  "is_digit c = (48 \<le> code_point c \<and> code_point c \<le> 57)"

definition digit_val :: "char \<Rightarrow> int" where
  "digit_val c = int (code_point c) - 48"

fun digits_val :: "int \<Rightarrow> string \<Rightarrow> int" where
  "digits_val acc [] = acc"
| "digits_val acc (c # cs) = digits_val (acc * 10 + digit_val c) cs"

text \<open>
  \<^verbatim>\<open>parse_date\<close>: the regular expression \<^verbatim>\<open>^\d{4}-\d{2}-\d{2}$\<close> fixes the shape (a string
  of 8-bit characters has no digits besides 0..9; a trailing newline, which \<^verbatim>\<open>$\<close> lets
  through, is refused by \<^verbatim>\<open>strptime\<close> like every other malformed string), \<^verbatim>\<open>strptime\<close>
  and \<^verbatim>\<open>.date()\<close> build the date and raise \<^verbatim>\<open>ValueError\<close> where it does not exist, which the
  function turns into \<^verbatim>\<open>None\<close>, and the year must lie in 1900..current year + 50. The
  current year (\<^verbatim>\<open>datetime.now().year\<close>) is a parameter.
\<close>

definition date_shape :: "string \<Rightarrow> bool" where
  "date_shape s =
     (length s = 10 \<and> s ! 4 = CHR ''-'' \<and> s ! 7 = CHR ''-'' \<and>
      list_all is_digit (take 4 s) \<and> list_all is_digit (take 2 (drop 5 s)) \<and>
      list_all is_digit (take 2 (drop 8 s)))"

definition parse_date :: "int \<Rightarrow> string \<Rightarrow> date option" where
  "parse_date current_year date_str =
     (if \<not> date_shape date_str then None
      else case mk_date (digits_val 0 (take 4 date_str))
                        (digits_val 0 (take 2 (drop 5 date_str)))
                        (digits_val 0 (take 2 (drop 8 date_str))) of
             Inl e \<Rightarrow> None
           | Inr parsed_date \<Rightarrow>
               if year parsed_date < 1900 \<or> year parsed_date > current_year + 50 then None
               else Some parsed_date)"

section \<open>Age and days until the next birthday (services/birthday_service.py)\<close>

text \<open>The age loop of \<^verbatim>\<open>get_user_stats\<close> (the analytics report computes the same number):
  the difference of the years, one less when the birthday has not occurred this year.\<close>

definition age_on :: "date \<Rightarrow> date \<Rightarrow> int" where
  "age_on current_date birthdate =
     (let age = year current_date - year birthdate
      in if md_gt (month birthdate, day birthdate) (month current_date, day current_date)
         then age - 1 else age)"

text \<open>The body of the next-birthday loop: this year's occurrence, moved to next year when it
  is already past, and the days from today to it. Either \<^verbatim>\<open>replace\<close> may raise.\<close>

definition days_until :: "date \<Rightarrow> date \<Rightarrow> py_error + int" where
  "days_until current_date birthdate =
     (case replace_month_day current_date (month birthdate) (day birthdate) of
        Inl e \<Rightarrow> Inl e
      | Inr this_year \<Rightarrow>
          if date_lt this_year current_date
          then (case replace_year this_year (year current_date + 1) of
                  Inl e \<Rightarrow> Inl e
                | Inr next_year \<Rightarrow> Inr (days_between next_year current_date))
          else Inr (days_between this_year current_date))"

section \<open>Strings and the remaining validators (utils/validators.py, bot\_config.py)\<close>

text \<open>
  A Python \<^verbatim>\<open>str\<close> is modelled as a list of 8-bit characters read as the code points 0..255.
  \<^verbatim>\<open>str.isspace\<close> (which \<^verbatim>\<open>strip()\<close> and the class \<^verbatim>\<open>\s\<close> of a \<^verbatim>\<open>str\<close> pattern use) holds in
  that range for tab..carriage return, the separators 28..31, the space, NEL (133) and the
  no-break space (160).
\<close>

definition is_space :: "char \<Rightarrow> bool" where
  "is_space c =
     (let n = code_point c
      in (9 \<le> n \<and> n \<le> 13) \<or> (28 \<le> n \<and> n \<le> 32) \<or> n = 133 \<or> n = 160)"

definition strip :: "string \<Rightarrow> string" where
  "strip s = rev (dropWhile is_space (rev (dropWhile is_space s)))"

definition is_ascii_upper :: "char \<Rightarrow> bool" where
  "is_ascii_upper c = (65 \<le> code_point c \<and> code_point c \<le> 90)"

definition is_ascii_lower :: "char \<Rightarrow> bool" where
  "is_ascii_lower c = (97 \<le> code_point c \<and> code_point c \<le> 122)"

text \<open>\<^verbatim>\<open>str.lower()\<close>: in the range 0..255 the upper-case letters are A..Z and 192..222 without
  the multiplication sign (215); each maps to the code point 32 above.\<close>

definition to_lower :: "char \<Rightarrow> char" where
  "to_lower c =
     (let n = code_point c
      in if (65 \<le> n \<and> n \<le> 90) \<or> (192 \<le> n \<and> n \<le> 222 \<and> n \<noteq> 215)
         then char_of (n + 32) else c)"

definition lower :: "string \<Rightarrow> string" where
  "lower s = map to_lower s"

text \<open>The database compares \<^verbatim>\<open>name__iexact\<close> case-insensitively (both sides through SQL
  \<^verbatim>\<open>UPPER\<close>, which folds the ASCII letters only).\<close>

definition sql_upper :: "string \<Rightarrow> string" where
  "sql_upper s = map (\<lambda>c. if is_ascii_lower c then char_of (code_point c - 32) else c) s"

definition iexact :: "string \<Rightarrow> string \<Rightarrow> bool" where
  "iexact field_value v = (sql_upper field_value = sql_upper v)"

text \<open>\<^verbatim>\<open>str.title()\<close> on the letters a name may contain (\<^verbatim>\<open>validate_name\<close> lets only ASCII
  letters through): a letter after a letter is lower-cased, a letter after anything else is
  upper-cased.\<close>

fun title_from :: "bool \<Rightarrow> string \<Rightarrow> string" where
  "title_from previous_is_cased [] = []"
| "title_from previous_is_cased (c # cs) =
     (if is_ascii_lower c
      then (if previous_is_cased then c else char_of (code_point c - 32)) # title_from True cs
      else if is_ascii_upper c
      then (if previous_is_cased then char_of (code_point c + 32) else c) # title_from True cs
      else c # title_from False cs)"

definition title :: "string \<Rightarrow> string" where
  "title s = title_from False s"

text \<open>\<^verbatim>\<open>validate_name\<close>: the character class of the pattern is
  \<^verbatim>\<open>[a-zA-Z\s\-\'\.]\<close>, matched against the stripped name from its start to its end.\<close>

definition name_char :: "char \<Rightarrow> bool" where
  "name_char c =
     (is_ascii_lower c \<or> is_ascii_upper c \<or> is_space c \<or>
      c = CHR ''-'' \<or> c = CHR 0x27 \<or> c = CHR ''.'')"

definition validate_name :: "string \<Rightarrow> bool" where
  "validate_name name =
     (if name = [] \<or> length (strip name) = 0 then False
      else if length (strip name) > 100 then False
      else if \<not> list_all name_char (strip name) then False
      else True)"

text \<open>The keys of \<^verbatim>\<open>BIRTHDAY_CATEGORIES\<close>, in the order of the dictionary. The values are
  display labels that start with an emoji; nothing below reads them, and the reports that the
  source keys by label are keyed here by the category key the label belongs to.\<close>

definition BIRTHDAY_CATEGORIES :: "string list" where
  "BIRTHDAY_CATEGORIES = [''love'', ''family'', ''relative'', ''work'', ''friend'', ''other'']"

definition validate_category :: "string \<Rightarrow> bool" where
  "validate_category category = (lower category \<in> set BIRTHDAY_CATEGORIES)"

definition image_extensions :: "string list" where
  "image_extensions = [''.jpg'', ''.jpeg'', ''.png'', ''.gif'', ''.bmp'', ''.webp'']"

definition image_hosts :: "string list" where
  "image_hosts = [''imgur.com'', ''i.imgur.com'', ''cdn.discordapp.com'', ''pbs.twimg.com'',
     ''images.unsplash.com'', ''googleusercontent.com'', ''cloudinary.com'']"

text \<open>
  \<^verbatim>\<open>validate_image_url\<close>. The well-formedness test \<^verbatim>\<open>validators.url\<close> belongs to a third-party
  package and is a parameter. \<^verbatim>\<open>url_lower.endswith(ext)\<close> is \<^term>\<open>suffix ext url_lower\<close> and
  \<^verbatim>\<open>host in url_lower\<close> is \<^term>\<open>sublist host url_lower\<close> (a contiguous substring).
\<close>

definition validate_image_url :: "(string \<Rightarrow> bool) \<Rightarrow> string \<Rightarrow> bool" where
  "validate_image_url validators_url url =
     (if url = [] then True
      else if \<not> validators_url url then False
      else let url_lower = lower url
           in if list_ex (\<lambda>ext. suffix ext url_lower) image_extensions then True
              else if list_ex (\<lambda>host. sublist host url_lower) image_hosts then True
              else False)"

text \<open>
  The specification words the same check through the parts of the URL: a well-formed URL is
  accepted when its path ends in an image extension or its host is one of the image hosts.
  The following definitions follow those words, to be compared with the function above. A URL
  is read as \<^verbatim>\<open>scheme://netloc/path?query#fragment\<close>; the host is the netloc without user
  information and port.
\<close>

fun after_scheme :: "string \<Rightarrow> string" where
  "after_scheme [] = []"
| "after_scheme (c # cs) =
     (if prefix ''://'' (c # cs) then drop 3 (c # cs) else after_scheme cs)"

definition url_netloc :: "string \<Rightarrow> string" where
  "url_netloc url =
     takeWhile (\<lambda>c. c \<noteq> CHR ''/'' \<and> c \<noteq> CHR ''?'' \<and> c \<noteq> CHR ''#'') (after_scheme url)"

definition url_host :: "string \<Rightarrow> string" where
  "url_host url =
     (let n = url_netloc url;
          h = (if CHR ''@'' \<in> set n then tl (dropWhile (\<lambda>c. c \<noteq> CHR ''@'') n) else n)
      in lower (takeWhile (\<lambda>c. c \<noteq> CHR '':'') h))"

definition url_path :: "string \<Rightarrow> string" where
  "url_path url =
     takeWhile (\<lambda>c. c \<noteq> CHR ''?'' \<and> c \<noteq> CHR ''#'')
       (dropWhile (\<lambda>c. c \<noteq> CHR ''/'' \<and> c \<noteq> CHR ''?'' \<and> c \<noteq> CHR ''#'') (after_scheme url))"

definition spec_validate_image_url :: "(string \<Rightarrow> bool) \<Rightarrow> string \<Rightarrow> bool" where
  "spec_validate_image_url validators_url url =
     (url = [] \<or>
      (validators_url url \<and>
       (list_ex (\<lambda>ext. suffix ext (lower (url_path url))) image_extensions \<or>
        url_host url \<in> set image_hosts)))"

text \<open>A plain syntactic test of \<^verbatim>\<open>http\<close> and \<^verbatim>\<open>https\<close> URLs, used only to evaluate the validator
  on concrete URLs: a scheme, a dotted host name of lower-case letters, digits, dots and
  hyphens, and then printable ASCII without spaces. Every URL it accepts is well formed.\<close>

definition host_char :: "char \<Rightarrow> bool" where
  "host_char c = (is_ascii_lower c \<or> is_digit c \<or> c = CHR ''.'' \<or> c = CHR ''-'')"

definition plain_http_url :: "string \<Rightarrow> bool" where
  "plain_http_url url =
     ((prefix ''http://'' url \<or> prefix ''https://'' url) \<and>
      url_netloc url \<noteq> [] \<and> list_all host_char (url_netloc url) \<and>
      CHR ''.'' \<in> set (url_netloc url) \<and>
      hd (url_netloc url) \<noteq> CHR ''.'' \<and> last (url_netloc url) \<noteq> CHR ''.'' \<and>
      list_all (\<lambda>c. 33 \<le> code_point c \<and> code_point c \<le> 126) url)"

section \<open>The stored data (models/birthday.py)\<close>

text \<open>
  The two tables. Time stamps (\<^verbatim>\<open>datetime.now()\<close>) are integers read from a clock that the
  operations take as a parameter. The primary key \<^verbatim>\<open>id\<close> of a birthday is called \<open>bid\<close>, and
  the fields of a user that a birthday has too carry the prefix \<open>user_\<close>; the field \<^verbatim>\<open>notes\<close> is
  called \<open>notes_text\<close>. The foreign key
  \<open>user\<close> of a birthday holds the \<^verbatim>\<open>user_id\<close> of its owner.
\<close>

record User =
  user_id :: int
  username :: "string option"
  first_name :: "string option"
  is_superadmin :: bool
  timezone :: string
  user_created_at :: int
  user_is_deleted :: bool
  user_deleted_at :: "int option"

record Birthday =
  bid :: int
  user :: int
  name :: string
  birthdate :: date
  category :: string
  image_url :: "string option"
  notes_text :: "string option"
  created_at :: int
  updated_at :: int
  is_deleted :: bool
  deleted_at :: "int option"

text \<open>The database: both tables in storage order, and the next primary key of the birthday
  table (an auto-increment column).\<close>

record store =
  users :: "User list"
  birthdays :: "Birthday list"
  next_id :: int

definition empty_store :: store where
  "empty_store = \<lparr>users = [], birthdays = [], next_id = 1\<rparr>"

text \<open>\<^verbatim>\<open>User.get_or_none(user_id=...)\<close> and \<^verbatim>\<open>User.get_or_create(user_id=...)\<close>; a created user
  has the defaults of the model.\<close>

definition get_or_none :: "store \<Rightarrow> int \<Rightarrow> User option" where
  "get_or_none db uid = find (\<lambda>u. user_id u = uid) (users db)"

definition new_user :: "int \<Rightarrow> int \<Rightarrow> User" where
  "new_user uid now =
     \<lparr>user_id = uid, username = None, first_name = None, is_superadmin = False,
      timezone = ''UTC'', user_created_at = now, user_is_deleted = False,
      user_deleted_at = None\<rparr>"

definition get_or_create :: "store \<Rightarrow> int \<Rightarrow> int \<Rightarrow> store \<times> User" where
  "get_or_create db uid now =
     (case get_or_none db uid of
        Some u \<Rightarrow> (db, u)
      | None \<Rightarrow> (db\<lparr>users := users db @ [new_user uid now]\<rparr>, new_user uid now))"

text \<open>\<^verbatim>\<open>Birthday.filter(...).first()\<close>: the first row, in storage order, that passes the filter.
  \<^verbatim>\<open>filter_name\<close> is the filter of \<^verbatim>\<open>add_birthday\<close> (deleted rows included), \<^verbatim>\<open>filter_name_deleted\<close>
  the one of the other operations, with the flag \<^verbatim>\<open>is_deleted\<close> fixed.\<close>

definition filter_name :: "store \<Rightarrow> int \<Rightarrow> string \<Rightarrow> Birthday list" where
  "filter_name db uid s = filter (\<lambda>b. user b = uid \<and> iexact (name b) s) (birthdays db)"

definition filter_name_deleted :: "store \<Rightarrow> int \<Rightarrow> string \<Rightarrow> bool \<Rightarrow> Birthday list" where
  "filter_name_deleted db uid s flag =
     filter (\<lambda>b. user b = uid \<and> iexact (name b) s \<and> is_deleted b = flag) (birthdays db)"

definition first :: "'a list \<Rightarrow> 'a option" where
  "first xs = (case xs of [] \<Rightarrow> None | x # _ \<Rightarrow> Some x)"

text \<open>\<^verbatim>\<open>save()\<close> writes the row with the object's primary key; \<^verbatim>\<open>updated_at\<close> is an
  \<^verbatim>\<open>auto_now\<close> field, set on every save. \<^verbatim>\<open>Birthday.create\<close> appends a row with the next key.\<close>

definition save :: "store \<Rightarrow> Birthday \<Rightarrow> int \<Rightarrow> store" where
  "save db b now =
     db\<lparr>birthdays := map (\<lambda>x. if bid x = bid b then b\<lparr>updated_at := now\<rparr> else x) (birthdays db)\<rparr>"

definition create :: "store \<Rightarrow> int \<Rightarrow> string \<Rightarrow> date \<Rightarrow> string \<Rightarrow> string option \<Rightarrow>
    string option \<Rightarrow> int \<Rightarrow> store \<times> Birthday" where
  "create db uid nm bd cat img nts now =
     (let b = \<lparr>bid = next_id db, user = uid, name = nm, birthdate = bd, category = cat,
               image_url = img, notes_text = nts, created_at = now, updated_at = now,
               is_deleted = False, deleted_at = None\<rparr>
      in (db\<lparr>birthdays := birthdays db @ [b], next_id := next_id db + 1\<rparr>, b))"

section \<open>The birthday service (services/birthday\_service.py)\<close>

text \<open>
  Every operation returns the dictionary \<^verbatim>\<open>{"success": ..., "message": ...}\<close>. The message is
  an f-string; the model keeps which message it is and the values put into it, one
  constructor per message of the source:
  \<^item> \<open>Invalid_name\<close>: \<^verbatim>\<open>Invalid name format\<close>;
  \<^item> \<open>Invalid_date\<close>: \<^verbatim>\<open>Invalid date format. Use YYYY-MM-DD\<close>;
  \<^item> \<open>Invalid_category\<close>: \<^verbatim>\<open>Invalid category. Use: ...\<close>;
  \<^item> \<open>Invalid_image_url\<close>: \<^verbatim>\<open>Invalid image URL format\<close>;
  \<^item> \<open>Already_exists name\<close>: \<^verbatim>\<open>Birthday for {name} already exists\<close>;
  \<^item> \<open>Restored_with name date\<close>: \<^verbatim>\<open>Birthday restored for {existing.name} ({birthdate})\<close>;
  \<^item> \<open>Added name date category\<close>: \<^verbatim>\<open>Birthday added for {birthday.name} ({birthdate}) - Category: ...\<close>;
  \<^item> \<open>User_not_found\<close>: \<^verbatim>\<open>User not found\<close>;
  \<^item> \<open>Not_found name\<close>: \<^verbatim>\<open>Birthday for {name} not found\<close>;
  \<^item> \<open>Deleted name\<close>: \<^verbatim>\<open>Birthday for {name} deleted\<close>;
  \<^item> \<open>No_deleted_found name\<close>: \<^verbatim>\<open>No deleted birthday found for {name}\<close>;
  \<^item> \<open>Restored name\<close>: \<^verbatim>\<open>Birthday for {name} restored successfully\<close>;
  \<^item> \<open>Updated name fields\<close>: \<^verbatim>\<open>Birthday for {name} updated: ...\<close>, with the list of updated fields.

  The handlers \<^verbatim>\<open>except Exception\<close> catch failures of the database driver; the store of the
  model does not fail, so they have no branch here.
\<close>

datatype message =
    Invalid_name
  | Invalid_date
  | Invalid_category
  | Invalid_image_url
  | Already_exists string
  | Restored_with string date
  | Added string date string
  | User_not_found
  | Not_found string
  | Deleted string
  | No_deleted_found string
  | Restored string
  | Updated string "string list"

record result =
  success :: bool
  message :: message
  birthday :: "Birthday option"

definition failure :: "message \<Rightarrow> result" where
  "failure m = \<lparr>success = False, message = m, birthday = None\<rparr>"

text \<open>Python's truth value of an optional string: \<^verbatim>\<open>None\<close> and the empty string are false.\<close>

definition truthy :: "string option \<Rightarrow> bool" where
  "truthy s = (case s of None \<Rightarrow> False | Some t \<Rightarrow> t \<noteq> [])"

text \<open>
  \<^verbatim>\<open>add_birthday\<close>. The parameters are the well-formedness test of URLs, the clock value
  \<open>now\<close> and the current year that \<^verbatim>\<open>parse_date\<close> reads; the result is the new store and the
  returned dictionary.
\<close>

definition add_birthday :: "(string \<Rightarrow> bool) \<Rightarrow> int \<Rightarrow> int \<Rightarrow> store \<Rightarrow> int \<Rightarrow> string \<Rightarrow> string \<Rightarrow>
    string \<Rightarrow> string option \<Rightarrow> string option \<Rightarrow> store \<times> result" where
  "add_birthday validators_url now current_year db uid nm birthdate_str cat img nts =
     (if \<not> validate_name nm then (db, failure Invalid_name)
      else case parse_date current_year birthdate_str of
        None \<Rightarrow> (db, failure Invalid_date)
      | Some bd \<Rightarrow>
          if \<not> validate_category cat then (db, failure Invalid_category)
          else if truthy img \<and> \<not> validate_image_url validators_url (the img)
          then (db, failure Invalid_image_url)
          else
            let (db1, u) = get_or_create db uid now
            in case first (filter_name db1 (user_id u) (strip nm)) of
                 Some existing \<Rightarrow>
                   if \<not> is_deleted existing then (db1, failure (Already_exists nm))
                   else
                     let restored = existing\<lparr>birthdate := bd, category := lower cat,
                           image_url := img, notes_text := nts, is_deleted := False,
                           deleted_at := None, updated_at := now\<rparr>
                     in (save db1 restored now,
                         \<lparr>success = True, message = Restored_with (name existing) bd,
                          birthday = Some restored\<rparr>)
               | None \<Rightarrow>
                   let (db2, b) = create db1 (user_id u) (title (strip nm)) bd (lower cat)
                                    img nts now
                   in (db2, \<lparr>success = True, message = Added (name b) bd (lower cat),
                             birthday = Some b\<rparr>))"

definition delete_birthday :: "int \<Rightarrow> store \<Rightarrow> int \<Rightarrow> string \<Rightarrow> store \<times> result" where
  "delete_birthday now db uid nm =
     (case get_or_none db uid of
        None \<Rightarrow> (db, failure User_not_found)
      | Some u \<Rightarrow>
          (case first (filter_name_deleted db (user_id u) (strip nm) False) of
             None \<Rightarrow> (db, failure (Not_found nm))
           | Some b \<Rightarrow>
               (save db (b\<lparr>is_deleted := True, deleted_at := Some now\<rparr>) now,
                \<lparr>success = True, message = Deleted nm, birthday = None\<rparr>)))"

definition restore_deleted_birthday :: "int \<Rightarrow> store \<Rightarrow> int \<Rightarrow> string \<Rightarrow> store \<times> result" where
  "restore_deleted_birthday now db uid nm =
     (case get_or_none db uid of
        None \<Rightarrow> (db, failure User_not_found)
      | Some u \<Rightarrow>
          (case first (filter_name_deleted db (user_id u) (strip nm) True) of
             None \<Rightarrow> (db, failure (No_deleted_found nm))
           | Some b \<Rightarrow>
               (save db (b\<lparr>is_deleted := False, deleted_at := None, updated_at := now\<rparr>) now,
                \<lparr>success = True, message = Restored nm, birthday = None\<rparr>)))"

text \<open>
  The invariant of the birthday table that the operations keep: primary keys are unique and
  below the next key, every row belongs to a stored user, and a user has at most one row
  (deleted or not) per case-insensitive name. \<^verbatim>\<open>add_birthday\<close> creates a row only when the
  user has none of that name, and no operation changes a name or an owner.
\<close>

definition same_person :: "Birthday \<Rightarrow> Birthday \<Rightarrow> bool" where
  "same_person a b = (user a = user b \<and> iexact (name a) (name b))"

definition store_ok :: "store \<Rightarrow> bool" where
  "store_ok db =
     (distinct (map bid (birthdays db)) \<and>
      (\<forall>b \<in> set (birthdays db). bid b < next_id db \<and> user b \<in> user_id ` set (users db)) \<and>
      (\<forall>a \<in> set (birthdays db). \<forall>b \<in> set (birthdays db). same_person a b \<longrightarrow> a = b))"

text \<open>The user's active records with a name (the rows \<^verbatim>\<open>get_user_birthdays\<close> returns, narrowed
  to the name).\<close>

definition active_named :: "store \<Rightarrow> int \<Rightarrow> string \<Rightarrow> Birthday list" where
  "active_named db uid nm = filter_name_deleted db uid (strip nm) False"


text \<open>
  \<^verbatim>\<open>update_birthday\<close>. A parameter that is \<^verbatim>\<open>None\<close> (the default) or, for the date and the
  category, empty leaves its field alone. The fields are set on the object in memory and
  written by the one \<^verbatim>\<open>save()\<close> at the end, so a failed validation leaves the store as it is.
  The list in the message holds the names of the updated fields.
\<close>

definition update_birthday :: "(string \<Rightarrow> bool) \<Rightarrow> int \<Rightarrow> int \<Rightarrow> store \<Rightarrow> int \<Rightarrow> string \<Rightarrow>
    string option \<Rightarrow> string option \<Rightarrow> string option \<Rightarrow> string option \<Rightarrow> store \<times> result" where
  "update_birthday validators_url now current_year db uid nm new_date_str new_category
       new_image_url new_notes =
     (case get_or_none db uid of
        None \<Rightarrow> (db, failure User_not_found)
      | Some u \<Rightarrow>
          (case first (filter_name_deleted db (user_id u) (strip nm) False) of
             None \<Rightarrow> (db, failure (Not_found nm))
           | Some b \<Rightarrow>
               if truthy new_date_str \<and> parse_date current_year (the new_date_str) = None
               then (db, failure Invalid_date)
               else if truthy new_category \<and> \<not> validate_category (the new_category)
               then (db, failure Invalid_category)
               else if truthy new_image_url
                       \<and> \<not> validate_image_url validators_url (the new_image_url)
               then (db, failure Invalid_image_url)
               else
                 let b1 = (if truthy new_date_str
                           then b\<lparr>birthdate := the (parse_date current_year (the new_date_str))\<rparr>
                           else b);
                     b2 = (if truthy new_category
                           then b1\<lparr>category := lower (the new_category)\<rparr> else b1);
                     b3 = (if new_image_url \<noteq> None
                           then b2\<lparr>image_url := (if truthy new_image_url then new_image_url
                                                  else None)\<rparr>
                           else b2);
                     b4 = (if new_notes \<noteq> None
                           then b3\<lparr>notes_text := (if truthy new_notes then new_notes else None)\<rparr>
                           else b3);
                     updated_fields =
                       (if truthy new_date_str then [''date''] else []) @
                       (if truthy new_category then [''category''] else []) @
                       (if new_image_url \<noteq> None then [''image''] else []) @
                       (if new_notes \<noteq> None then [''notes''] else [])
                 in (save db b4 now,
                     \<lparr>success = True, message = Updated nm updated_fields, birthday = None\<rparr>)))"

text \<open>
  The stores of the program. The tables start empty; a user row is written by
  \<^verbatim>\<open>User.get_or_create\<close> alone (in \<^verbatim>\<open>init_database\<close>, in \<^verbatim>\<open>cmd_start\<close> with the Telegram name
  of the user, and in \<^verbatim>\<open>add_birthday\<close>), which adds a row only for an id that has none; a
  birthday row is written by the four operations above alone, one call after the other.
\<close>

inductive reachable :: "store \<Rightarrow> bool" where
  initial: "reachable empty_store"
| user_created:
    "reachable db \<Longrightarrow> get_or_none db (user_id u) = None \<Longrightarrow>
     reachable (db\<lparr>users := users db @ [u]\<rparr>)"
| added:
    "reachable db \<Longrightarrow>
     reachable (fst (add_birthday validators_url now current_year db uid nm birthdate_str cat
                       img nts))"
| deleted: "reachable db \<Longrightarrow> reachable (fst (delete_birthday now db uid nm))"
| updated:
    "reachable db \<Longrightarrow>
     reachable (fst (update_birthday validators_url now current_year db uid nm new_date_str
                       new_category new_image_url new_notes))"
| restored: "reachable db \<Longrightarrow> reachable (fst (restore_deleted_birthday now db uid nm))"
section \<open>Numbers and dictionaries of the reports\<close>

text \<open>
  Python computes the averages and percentages in binary floating point and rounds them with
  \<^verbatim>\<open>round(x, 1)\<close>, which rounds the float to the nearest number with one decimal, a tie going
  to the even last digit. The model computes them as exact rationals and rounds the exact
  value the same way; the two agree wherever the exact value is not within the rounding error
  of a double (about \<open>10\<^sup>-\<^sup>1\<^sup>3\<close> here) of a tie \<open>k/10 + 1/20\<close>.
\<close>

definition round_half_even :: "rat \<Rightarrow> int" where
  "round_half_even x =
     (let f = \<lfloor>x\<rfloor>; d = x - of_int f
      in if d < 1 / 2 then f else if d > 1 / 2 then f + 1
         else if even f then f else f + 1)"

definition round1 :: "rat \<Rightarrow> rat" where
  "round1 x = of_int (round_half_even (x * 10)) / 10"

text \<open>A Python \<^verbatim>\<open>dict\<close> keeps its keys in insertion order: an association list, read with
  \<^const>\<open>map_of\<close> and written with \<^const>\<open>AList.update\<close> (in place for a key that is present,
  at the end for a new one).\<close>

type_synonym ('k, 'v) dict = "('k \<times> 'v) list"

definition keys :: "('k, 'v) dict \<Rightarrow> 'k list" where
  "keys d = map fst d"

text \<open>\<^verbatim>\<open>d[k] = d.get(k, 0) + 1\<close> and \<^verbatim>\<open>d[k] += 1\<close>. The second raises \<^verbatim>\<open>KeyError\<close> on a key that is
  not there; it is applied only to the month names, which are all entered before.\<close>

definition count_up :: "'k \<Rightarrow> ('k, int) dict \<Rightarrow> ('k, int) dict" where
  "count_up k d = AList.update k ((case map_of d k of None \<Rightarrow> 0 | Some c \<Rightarrow> c) + 1) d"

definition increment :: "'k \<Rightarrow> ('k, int) dict \<Rightarrow> ('k, int) dict" where
  "increment k d = AList.update k (the (map_of d k) + 1) d"

text \<open>\<^verbatim>\<open>min\<close> and \<^verbatim>\<open>max\<close> of a non-empty list (both are guarded by \<^verbatim>\<open>if ages\<close>).\<close>

definition list_min :: "int list \<Rightarrow> int" where
  "list_min xs = fold min (tl xs) (hd xs)"

definition list_max :: "int list \<Rightarrow> int" where
  "list_max xs = fold max (tl xs) (hd xs)"

section \<open>User statistics (services/birthday\_service.py, get\_user\_stats)\<close>

text \<open>\<^verbatim>\<open>calendar.month_name[i]\<close> for the month \<open>i\<close> of a date, which is always in 1..12.\<close>

definition MONTH_NAMES :: "string list" where
  "MONTH_NAMES = [''January'', ''February'', ''March'', ''April'', ''May'', ''June'', ''July'',
     ''August'', ''September'', ''October'', ''November'', ''December'']"

definition month_name :: "int \<Rightarrow> string" where
  "month_name i = MONTH_NAMES ! nat (i - 1)"

text \<open>The dictionary \<^verbatim>\<open>next_birthday\<close> (keys \<^verbatim>\<open>name\<close>, \<^verbatim>\<open>date\<close>, \<^verbatim>\<open>days_until\<close>, \<^verbatim>\<open>category\<close>) and the
  returned statistics. The dictionary returned for a user without active records has no key
  \<^verbatim>\<open>age_range\<close>, so that field is optional.\<close>

record next_birthday_info =
  next_name :: string
  next_date :: date
  next_days_until :: int
  next_category :: string

record user_stats =
  total_birthdays :: int
  upcoming_this_month :: int
  next_birthday :: "next_birthday_info option"
  category_breakdown :: "(string, int) dict"
  monthly_distribution :: "(string, int) dict"
  average_age :: rat
  age_range :: "(int \<times> int) option"

text \<open>The loop that finds the next birthday. \<^verbatim>\<open>min_days\<close> starts as infinity and is afterwards
  the \<^verbatim>\<open>days_until\<close> of the entry found so far, so the accumulator is that entry alone. An
  exception of \<^verbatim>\<open>replace\<close> leaves the loop and the function: nothing catches it.\<close>

fun next_birthday_loop ::
    "date \<Rightarrow> Birthday list \<Rightarrow> next_birthday_info option \<Rightarrow> py_error + next_birthday_info option" where
  "next_birthday_loop current_date [] found = Inr found"
| "next_birthday_loop current_date (b # bs) found =
     (case days_until current_date (birthdate b) of
        Inl e \<Rightarrow> Inl e
      | Inr d \<Rightarrow>
          next_birthday_loop current_date bs
            (if (case found of None \<Rightarrow> True | Some n \<Rightarrow> d < next_days_until n)
             then Some \<lparr>next_name = name b, next_date = birthdate b, next_days_until = d,
                        next_category = category b\<rparr>
             else found))"

definition category_counts :: "Birthday list \<Rightarrow> (string, int) dict" where
  "category_counts bs = fold (\<lambda>b d. count_up (category b) d) bs []"

definition monthly_counts :: "Birthday list \<Rightarrow> (string, int) dict" where
  "monthly_counts bs =
     fold (\<lambda>b d. increment (month_name (month (birthdate b))) d) bs
       (map (\<lambda>i. (month_name i, 0)) [1..12])"

definition no_birthdays_stats :: user_stats where
  "no_birthdays_stats =
     \<lparr>total_birthdays = 0, upcoming_this_month = 0, next_birthday = None,
      category_breakdown = [], monthly_distribution = [], average_age = 0,
      age_range = None\<rparr>"

text \<open>
  \<^verbatim>\<open>get_user_stats\<close>, with \<^verbatim>\<open>date.today()\<close> as a parameter. The result is \<^verbatim>\<open>None\<close> for the empty
  dictionary returned when the user does not exist. The function has no handler, so an
  exception of the next-birthday loop is its outcome.
\<close>

definition get_user_stats :: "date \<Rightarrow> store \<Rightarrow> int \<Rightarrow> py_error + user_stats option" where
  "get_user_stats current_date db uid =
     (case get_or_none db uid of
        None \<Rightarrow> Inr None
      | Some u \<Rightarrow>
          let bs = filter (\<lambda>b. user b = user_id u \<and> \<not> is_deleted b) (birthdays db);
              total_count = int (length bs)
          in if total_count = 0 then Inr (Some no_birthdays_stats)
             else
               let ages = map (\<lambda>b. age_on current_date (birthdate b)) bs;
                   average = (if ages \<noteq> [] then rat_of_int (sum_list ages) / rat_of_int (int (length ages))
                              else 0);
                   upcoming = int (length (filter (\<lambda>b. month (birthdate b) = month current_date
                                 \<and> day (birthdate b) \<ge> day current_date) bs))
               in case next_birthday_loop current_date bs None of
                    Inl e \<Rightarrow> Inl e
                  | Inr found \<Rightarrow>
                      Inr (Some \<lparr>total_birthdays = total_count,
                                 upcoming_this_month = upcoming,
                                 next_birthday = found,
                                 category_breakdown = category_counts bs,
                                 monthly_distribution = monthly_counts bs,
                                 average_age = round1 average,
                                 age_range = Some (if ages \<noteq> [] then list_min ages else 0,
                                                   if ages \<noteq> [] then list_max ages else 0)\<rparr>))"

section \<open>The reminder scheduler (scheduler/reminder\_scheduler.py)\<close>

text \<open>
  \<^verbatim>\<open>user_time + timedelta(days=n)\<close> moves the date of \<^verbatim>\<open>user_time\<close> forward by \<open>n\<close> days and
  raises \<^verbatim>\<open>OverflowError\<close> past the last date, 9999-12-31.
\<close>

definition next_day :: "date \<Rightarrow> py_error + date" where
  "next_day d =
     (if day d < days_in_month (year d) (month d) then Inr (d\<lparr>day := day d + 1\<rparr>)
      else if month d < 12 then Inr \<lparr>year = year d, month = month d + 1, day = 1\<rparr>
      else if year d < 9999 then Inr \<lparr>year = year d + 1, month = 1, day = 1\<rparr>
      else Inl OverflowError)"

fun add_days :: "nat \<Rightarrow> date \<Rightarrow> py_error + date" where
  "add_days 0 d = Inr d"
| "add_days (Suc n) d = (case next_day d of Inl e \<Rightarrow> Inl e | Inr d' \<Rightarrow> add_days n d')"

text \<open>
  One line of the message of \<^verbatim>\<open>_send_upcoming_reminder\<close>: the name, the number of days ahead,
  the age printed after \<^verbatim>\<open>turning\<close>, the category, and whether the marks for a photo and for
  notes are printed. The message sent to a user is the list of its lines.
\<close>

record upcoming_line =
  line_name :: string
  line_days_ahead :: nat
  line_age :: int
  line_category :: string
  line_has_image :: bool
  line_has_notes :: bool

text \<open>The inner loop of \<^verbatim>\<open>check_upcoming_birthdays\<close>: for 1, 2 and 3 days ahead, the user's
  active birthdays whose month and day are those of the future date.\<close>

fun upcoming_birthdays :: "date \<Rightarrow> Birthday list \<Rightarrow> nat list \<Rightarrow> py_error + (Birthday \<times> nat) list" where
  "upcoming_birthdays user_time user_birthdays [] = Inr []"
| "upcoming_birthdays user_time user_birthdays (days_ahead # rest) =
     (case add_days days_ahead user_time of
        Inl e \<Rightarrow> Inl e
      | Inr future_date \<Rightarrow>
          (case upcoming_birthdays user_time user_birthdays rest of
             Inl e \<Rightarrow> Inl e
           | Inr later \<Rightarrow>
               Inr (map (\<lambda>b. (b, days_ahead))
                      (filter (\<lambda>b. \<not> is_deleted b \<and> month (birthdate b) = month future_date
                                  \<and> day (birthdate b) = day future_date) user_birthdays)
                    @ later)))"

text \<open>\<^verbatim>\<open>_send_upcoming_reminder\<close>; \<open>today\<close> is \<^verbatim>\<open>date.today()\<close>, the date of the server.\<close>

definition send_upcoming_reminder :: "date \<Rightarrow> User \<Rightarrow> (Birthday \<times> nat) list \<Rightarrow> int \<times> upcoming_line list" where
  "send_upcoming_reminder today u upcoming =
     (user_id u,
      map (\<lambda>(b, days_ahead).
             \<lparr>line_name = name b, line_days_ahead = days_ahead,
              line_age = year today - year (birthdate b) + 1,
              line_category = category b, line_has_image = truthy (image_url b),
              line_has_notes = truthy (notes_text b)\<rparr>) upcoming)"

text \<open>
  \<^verbatim>\<open>check_upcoming_birthdays\<close>: the messages sent, in order. \<open>get_user_time\<close> gives the current
  date in a time zone (\<^verbatim>\<open>TimezoneHelper.get_user_time\<close>, which falls back to UTC by itself). An
  exception ends the loop over the users; the handler only logs it.
\<close>

fun check_upcoming_loop ::
    "(string \<Rightarrow> date) \<Rightarrow> date \<Rightarrow> Birthday list \<Rightarrow> User list \<Rightarrow> (int \<times> upcoming_line list) list" where
  "check_upcoming_loop get_user_time today rows [] = []"
| "check_upcoming_loop get_user_time today rows (u # us) =
     (case upcoming_birthdays (get_user_time (timezone u))
             (filter (\<lambda>b. user b = user_id u) rows) [1, 2, 3] of
        Inl e \<Rightarrow> []
      | Inr upcoming \<Rightarrow>
          (if upcoming \<noteq> [] then [send_upcoming_reminder today u upcoming] else [])
          @ check_upcoming_loop get_user_time today rows us)"

definition check_upcoming_birthdays ::
    "(string \<Rightarrow> date) \<Rightarrow> date \<Rightarrow> store \<Rightarrow> (int \<times> upcoming_line list) list" where
  "check_upcoming_birthdays get_user_time today db =
     check_upcoming_loop get_user_time today (birthdays db)
       (filter (\<lambda>u. \<not> user_is_deleted u) (users db))"

section \<open>The analytics report (services/admin\_service.py)\<close>

text \<open>\<^verbatim>\<open>get_all_birthdays\<close> returns one dictionary per row with the fields of the row (and the
  owner's id and name); the model returns the rows.\<close>

definition get_all_birthdays :: "store \<Rightarrow> bool \<Rightarrow> Birthday list" where
  "get_all_birthdays db include_deleted =
     (if include_deleted then birthdays db else filter (\<lambda>b. \<not> is_deleted b) (birthdays db))"

record df_row =
  df_user_id :: int
  df_category :: string
  df_age :: int
  df_birth_month :: int
  df_is_deleted :: bool
  df_has_image :: bool
  df_has_notes :: bool

definition df_data :: "date \<Rightarrow> Birthday list \<Rightarrow> df_row list" where
  "df_data now all_birthdays =
     map (\<lambda>b. \<lparr>df_user_id = user b, df_category = category b,
                df_age = age_on now (birthdate b),
                df_birth_month = month (birthdate b), df_is_deleted = is_deleted b,
                df_has_image = truthy (image_url b), df_has_notes = truthy (notes_text b)\<rparr>)
         all_birthdays"

text \<open>Counting with \<^verbatim>\<open>sum(1 for ... if ...)\<close>, and a percentage with its guard:
  \<^verbatim>\<open>round(count / total * 100, 1) if total > 0 else 0\<close>.\<close>

definition count_if :: "('a \<Rightarrow> bool) \<Rightarrow> 'a list \<Rightarrow> int" where
  "count_if P xs = int (length (filter P xs))"

definition percentage :: "int \<Rightarrow> int \<Rightarrow> rat" where
  "percentage count denominator =
     (if denominator > 0 then round1 (rat_of_int count / rat_of_int denominator * 100) else 0)"

definition month_names :: "string list" where
  "month_names = [''Jan'', ''Feb'', ''Mar'', ''Apr'', ''May'', ''Jun'', ''Jul'', ''Aug'', ''Sep'',
     ''Oct'', ''Nov'', ''Dec'']"

text \<open>The parts of the report. The fields carry the name of their part where the key is used
  twice in the source; \<^verbatim>\<open>category_distribution\<close> is keyed by the category key and holds the
  count and the percentage.\<close>

record overview =
  total_users :: int
  overview_total_birthdays :: int
  active_birthdays :: int
  deleted_birthdays :: int
  deletion_rate :: rat

record age_statistics =
  average :: rat
  age_min :: int
  age_max :: int
  median :: int

record engagement =
  birthdays_with_images :: int
  birthdays_with_notes :: int
  image_usage_rate :: rat
  notes_usage_rate :: rat

record user_activity =
  average_birthdays_per_user :: rat
  most_birthdays_by_single_user :: int
  total_active_users :: int

record analytics_report =
  report_overview :: overview
  category_distribution :: "(string, int \<times> rat) dict"
  report_age_statistics :: age_statistics
  report_monthly_distribution :: "(string, int) dict"
  report_engagement :: engagement
  report_user_activity :: user_activity

definition category_stats :: "Birthday list \<Rightarrow> (string, int \<times> rat) dict" where
  "category_stats active =
     map (\<lambda>cat_key.
            (cat_key,
             (count_if (\<lambda>b. category b = cat_key) active,
              percentage (count_if (\<lambda>b. category b = cat_key) active) (int (length active)))))
         BIRTHDAY_CATEGORIES"

definition age_stats :: "int list \<Rightarrow> age_statistics" where
  "age_stats ages =
     \<lparr>average = (if ages \<noteq> [] then round1 (rat_of_int (sum_list ages) / rat_of_int (int (length ages)))
                 else 0),
      age_min = (if ages \<noteq> [] then list_min ages else 0),
      age_max = (if ages \<noteq> [] then list_max ages else 0),
      median = (if ages \<noteq> [] then sort ages ! (length ages div 2) else 0)\<rparr>"

definition user_birthday_counts :: "df_row list \<Rightarrow> (int, int) dict" where
  "user_birthday_counts rows =
     fold (\<lambda>r d. if \<not> df_is_deleted r then count_up (df_user_id r) d else d) rows []"

text \<open>
  \<^verbatim>\<open>get_analytics_report\<close>, with the date of \<^verbatim>\<open>datetime.now()\<close> as a parameter. The error
  dictionary \<^verbatim>\<open>{"error": "No data available for analysis"}\<close> is the left value.
\<close>

definition get_analytics_report :: "date \<Rightarrow> store \<Rightarrow> string + analytics_report" where
  "get_analytics_report now db =
     (let all_birthdays = get_all_birthdays db True;
          active = get_all_birthdays db False
      in if all_birthdays = [] then Inl ''No data available for analysis''
         else
           let rows = df_data now all_birthdays;
               total = int (length all_birthdays);
               active_count = int (length active);
               deleted_count = total - active_count;
               ages = map df_age (filter (\<lambda>r. \<not> df_is_deleted r) rows);
               with_images = count_if (\<lambda>r. df_has_image r \<and> \<not> df_is_deleted r) rows;
               with_notes = count_if (\<lambda>r. df_has_notes r \<and> \<not> df_is_deleted r) rows;
               counts = user_birthday_counts rows
           in Inr
                \<lparr>report_overview =
                   \<lparr>total_users = int (length (remdups (map user all_birthdays))),
                    overview_total_birthdays = total,
                    active_birthdays = active_count,
                    deleted_birthdays = deleted_count,
                    deletion_rate = percentage deleted_count total\<rparr>,
                 category_distribution = category_stats active,
                 report_age_statistics = age_stats ages,
                 report_monthly_distribution =
                   map (\<lambda>(i, month_name).
                          (month_name,
                           count_if (\<lambda>r. df_birth_month r = i \<and> \<not> df_is_deleted r) rows))
                       (zip [1..12] month_names),
                 report_engagement =
                   \<lparr>birthdays_with_images = with_images,
                    birthdays_with_notes = with_notes,
                    image_usage_rate = percentage with_images active_count,
                    notes_usage_rate = percentage with_notes active_count\<rparr>,
                 report_user_activity =
                   \<lparr>average_birthdays_per_user =
                      (if counts \<noteq> []
                       then round1 (rat_of_int (sum_list (map snd counts)) / rat_of_int (int (length counts)))
                       else 0),
                    most_birthdays_by_single_user =
                      (if counts \<noteq> [] then list_max (map snd counts) else 0),
                    total_active_users = int (length counts)\<rparr>\<rparr>)"

text \<open>
  The words of the specification about the report, to compare it with: the ages of the active
  records on a date, the two middle elements of a list sorted ascending (they coincide for a
  list of odd length), and a number with one decimal place.
\<close>

definition active_ages :: "date \<Rightarrow> store \<Rightarrow> int list" where
  "active_ages now db =
     map (\<lambda>b. age_on now (birthdate b)) (filter (\<lambda>b. \<not> is_deleted b) (birthdays db))"

definition lower_middle :: "int list \<Rightarrow> int" where
  "lower_middle xs = sort xs ! ((length xs - 1) div 2)"

definition upper_middle :: "int list \<Rightarrow> int" where
  "upper_middle xs = sort xs ! (length xs div 2)"



section \<open>Example data\<close>

text \<open>The store after user 7 has added John (born 1995-09-27, category family) at clock
  value 100 to the empty store; the theorems below are instantiated on it.\<close>

definition john :: Birthday where
  "john = \<lparr>bid = 1, user = 7, name = ''John'',
            birthdate = \<lparr>year = 1995, month = 9, day = 27\<rparr>, category = ''family'',
            image_url = None, notes_text = None, created_at = 100, updated_at = 100,
            is_deleted = False, deleted_at = None\<rparr>"

definition john_store :: store where
  "john_store = \<lparr>users = [new_user 7 100], birthdays = [john], next_id = 2\<rparr>"

text \<open>User 7 registered without a record; the store after John was soft-deleted at clock
  value 200; and stores with a second person: Mary (born 1990-03-15), and Leap, born on
  2000-02-29.\<close>

definition lonely_store :: store where
  "lonely_store = \<lparr>users = [new_user 7 100], birthdays = [], next_id = 1\<rparr>"

definition removed_store :: store where
  "removed_store =
     \<lparr>users = [new_user 7 100],
      birthdays = [john\<lparr>is_deleted := True, deleted_at := Some 200\<rparr>], next_id = 2\<rparr>"

definition mary :: Birthday where
  "mary = \<lparr>bid = 2, user = 7, name = ''Mary'',
            birthdate = \<lparr>year = 1990, month = 3, day = 15\<rparr>, category = ''work'',
            image_url = None, notes_text = None, created_at = 110, updated_at = 110,
            is_deleted = False, deleted_at = None\<rparr>"

definition pair_store :: store where
  "pair_store = \<lparr>users = [new_user 7 100], birthdays = [john, mary], next_id = 3\<rparr>"

definition leap :: Birthday where
  "leap = \<lparr>bid = 2, user = 7, name = ''Leap'',
            birthdate = \<lparr>year = 2000, month = 2, day = 29\<rparr>, category = ''friend'',
            image_url = None, notes_text = None, created_at = 110, updated_at = 110,
            is_deleted = False, deleted_at = None\<rparr>"

definition leap_store :: store where
  "leap_store = \<lparr>users = [new_user 7 100], birthdays = [john, leap], next_id = 3\<rparr>"



section \<open>Calendar arithmetic\<close>

lemma month_cases:
  assumes "1 \<le> m" "m \<le> (12::int)"
  shows "m = 1 \<or> m = 2 \<or> m = 3 \<or> m = 4 \<or> m = 5 \<or> m = 6 \<or> m = 7 \<or> m = 8 \<or> m = 9 \<or> m = 10 \<or> m = 11 \<or> m = 12"
  using assms by arith

lemma days_in_month_bounds:
  assumes "1 \<le> m" "m \<le> 12"
  shows "28 \<le> days_in_month y m \<and> days_in_month y m \<le> 31"
  using month_cases [OF assms]
  by (auto simp: days_in_month_def DAYS_IN_MONTH_def)

lemma days_before_month_Suc:
  assumes "1 \<le> m" "m \<le> 11"
  shows "days_before_month y (m + 1) = days_before_month y m + days_in_month y m"
proof -
  have "m = 1 \<or> m = 2 \<or> m = 3 \<or> m = 4 \<or> m = 5 \<or> m = 6 \<or> m = 7 \<or> m = 8 \<or> m = 9 \<or> m = 10 \<or> m = 11"
    using assms by arith
  then show ?thesis
    by (auto simp: days_before_month_def days_in_month_def DAYS_IN_MONTH_def DAYS_BEFORE_MONTH_def)
qed

lemma days_before_month_mono:
  assumes "1 \<le> m" "m < m'" "m' \<le> 12"
  shows "days_before_month y m + days_in_month y m \<le> days_before_month y m'"
proof -
  have "m + 1 \<le> m'" using assms by simp
  then show ?thesis using assms(1,3)
  proof (induction m' rule: int_ge_induct)
    case base
    then show ?case by (simp add: days_before_month_Suc)
  next
    case (step i)
    have "days_before_month y (i + 1) = days_before_month y i + days_in_month y i"
      using step by (intro days_before_month_Suc) auto
    moreover have "0 \<le> days_in_month y i"
      using days_in_month_bounds [of i y] step by auto
    ultimately show ?case using step by auto
  qed
qed

lemma div_step:
  assumes "0 < (k::int)"
  shows "y div k = (y - 1) div k + (if y mod k = 0 then 1 else 0)"
proof (cases "y mod k = 0")
  case True
  then have "y = k * (y div k)" by auto
  then have "y - 1 = k * (y div k - 1) + (k - 1)"
    by (simp add: algebra_simps)
  then have "(y - 1) div k = y div k - 1"
    by (rule int_div_pos_eq) (use assms in simp_all)
  with True show ?thesis by simp
next
  case False
  have "0 \<le> y mod k" "y mod k < k" using assms by simp_all
  then have "1 \<le> y mod k" using False by linarith
  have "y - 1 = k * (y div k) + (y mod k - 1)"
    by (simp add: algebra_simps)
  then have "(y - 1) div k = y div k"
    by (rule int_div_pos_eq) (use \<open>1 \<le> y mod k\<close> \<open>y mod k < k\<close> in simp_all)
  with False show ?thesis by simp
qed

lemma leap_arith:
  fixes A B C y :: int
  assumes "r \<longrightarrow> q" "q \<longrightarrow> p"
  shows "y * 365 + (A + (if p then 1 else 0)) - (B + (if q then 1 else 0)) + (C + (if r then 1 else 0))
       = (y - 1) * 365 + A - B + C + (if p \<and> (\<not> q \<or> r) then 366 else 365)"
  using assms by (cases p; cases q; cases r; simp)

lemma days_before_year_Suc:
  "days_before_year (y + 1) = days_before_year y + (if is_leap y then 366 else 365)"
proof -
  define A B C where "A = (y - 1) div 4" and "B = (y - 1) div 100" and "C = (y - 1) div 400"
  define p q r where "p \<longleftrightarrow> y mod 4 = 0" and "q \<longleftrightarrow> y mod 100 = 0" and "r \<longleftrightarrow> y mod 400 = 0"
  have a: "y div 4 = A + (if p then 1 else 0)"
    unfolding A_def p_def by (rule div_step) simp
  have b: "y div 100 = B + (if q then 1 else 0)"
    unfolding B_def q_def by (rule div_step) simp
  have c: "y div 400 = C + (if r then 1 else 0)"
    unfolding C_def r_def by (rule div_step) simp
  have d: "r \<longrightarrow> q"
  proof
    assume r
    have "(100::int) dvd 400" by simp
    moreover have "400 dvd y" using \<open>r\<close> by (simp add: r_def mod_eq_0_iff_dvd)
    ultimately have "100 dvd y" by (rule dvd_trans)
    then show q by (simp add: q_def)
  qed
  have e: "q \<longrightarrow> p"
  proof
    assume q
    have "(4::int) dvd 100" by simp
    moreover have "100 dvd y" using \<open>q\<close> by (simp add: q_def mod_eq_0_iff_dvd)
    ultimately have "4 dvd y" by (rule dvd_trans)
    then show p by (simp add: p_def)
  qed
  have L: "days_before_year (y + 1) = y * 365 + y div 4 - y div 100 + y div 400"
    by (simp add: days_before_year_def Let_def)
  have R: "days_before_year y = (y - 1) * 365 + A - B + C"
    by (simp add: days_before_year_def Let_def A_def B_def C_def)
  have leap: "is_leap y \<longleftrightarrow> p \<and> (\<not> q \<or> r)"
    by (simp add: is_leap_def p_def q_def r_def)
  show ?thesis
    unfolding L R leap a b c by (rule leap_arith [OF d e])
qed


lemma days_before_month_nonneg:
  assumes "1 \<le> m" "m \<le> 12"
  shows "0 \<le> days_before_month y m"
proof (cases "m = 1")
  case True
  then show ?thesis by (simp add: days_before_month_def DAYS_BEFORE_MONTH_def)
next
  case False
  then have "1 < m" using assms by simp
  then have "days_before_month y 1 + days_in_month y 1 \<le> days_before_month y m"
    using assms by (intro days_before_month_mono) auto
  then show ?thesis
    by (simp add: days_before_month_def [of y 1] days_in_month_def DAYS_BEFORE_MONTH_def DAYS_IN_MONTH_def)
qed

lemma year_day_bounds:
  assumes "1 \<le> m" "m \<le> 12" "1 \<le> d" "d \<le> days_in_month y m"
  shows "1 \<le> days_before_month y m + d"
    and "days_before_month y m + d \<le> (if is_leap y then 366 else 365)"
proof -
  show "1 \<le> days_before_month y m + d"
    using days_before_month_nonneg [OF assms(1,2), of y] assms(3) by linarith
  have last: "days_before_month y 12 + days_in_month y 12 = (if is_leap y then 366 else 365)"
    by (simp add: days_before_month_def days_in_month_def DAYS_BEFORE_MONTH_def DAYS_IN_MONTH_def)
  show "days_before_month y m + d \<le> (if is_leap y then 366 else 365)"
  proof (cases "m = 12")
    case True
    then show ?thesis using assms(4) last by auto
  next
    case False
    then have "m < 12" using assms by simp
    then have "days_before_month y m + days_in_month y m \<le> days_before_month y 12"
      using assms by (intro days_before_month_mono) auto
    moreover have "0 \<le> days_in_month y 12" using days_in_month_bounds [of 12 y] by simp
    ultimately show ?thesis using assms(4) last by (auto split: if_splits)
  qed
qed

lemma year_day_mono:
  assumes "1 \<le> m" "m' \<le> 12" "d \<le> days_in_month y m" "1 \<le> d'"
    and "m < m' \<or> (m = m' \<and> d < d')"
  shows "days_before_month y m + d < days_before_month y m' + d'"
proof (cases "m < m'")
  case True
  then have "days_before_month y m + days_in_month y m \<le> days_before_month y m'"
    using assms by (intro days_before_month_mono) auto
  then show ?thesis using assms(3,4) by linarith
next
  case False
  then show ?thesis using assms(5) by auto
qed

lemma days_before_month_next_year:
  "days_before_month y' m \<le> days_before_month y m + 1"
  by (simp add: days_before_month_def)

text \<open>
  Claim C4. For every reference date \<open>today\<close> and every record on which the next-birthday
  computation of \<^verbatim>\<open>get_user_stats\<close> is defined (neither \<^verbatim>\<open>replace\<close> raises), the number of
  days until the next occurrence lies in 0..366, and it is 0 exactly when the month and the
  day of the birthdate are those of \<open>today\<close>.
\<close>

theorem days_until_range:
  assumes v: "valid_date today" and r: "days_until today bdate = Inr n"
  shows "0 \<le> n \<and> n \<le> 366 \<and>
         (n = 0 \<longleftrightarrow> month bdate = month today \<and> day bdate = day today)"
proof -
  define y tm td bm bd where "y = year today" and "tm = month today" and "td = day today"
    and "bm = month bdate" and "bd = day bdate"
  define L :: int where "L = (if is_leap y then 366 else 365)"
  have L: "L \<le> 366" by (simp add: L_def)
  let ?ty = "\<lparr>year = y, month = bm, day = bd\<rparr>"
  let ?ny = "\<lparr>year = y + 1, month = bm, day = bd\<rparr>"
  have tv: "1 \<le> tm" "tm \<le> 12" "1 \<le> td" "td \<le> days_in_month y tm"
    using v by (simp_all add: valid_date_def y_def tm_def td_def)
  have vty: "valid_date ?ty"
    using r by (auto simp: days_until_def replace_month_day_def mk_date_def Let_def
        y_def bm_def bd_def split: if_splits)
  then have bv: "1 \<le> bm" "bm \<le> 12" "1 \<le> bd" "bd \<le> days_in_month y bm"
    by (simp_all add: valid_date_def)
  have tb: "1 \<le> days_before_month y tm + td" "days_before_month y tm + td \<le> L"
    unfolding L_def using year_day_bounds [OF tv] by auto
  have bb: "1 \<le> days_before_month y bm + bd" "days_before_month y bm + bd \<le> L"
    unfolding L_def using year_day_bounds [OF bv] by auto
  have rty: "replace_month_day today bm bd = Inr ?ty"
    using vty by (simp add: replace_month_day_def mk_date_def y_def)
  show ?thesis
  proof (cases "date_lt ?ty today")
    case True
    then have lt: "bm < tm \<or> (bm = tm \<and> bd < td)"
      by (auto simp: date_lt_def y_def tm_def td_def)
    have vny: "valid_date ?ny" and n: "n = days_between ?ny today"
      using r rty True
      by (auto simp: days_until_def bm_def [symmetric] bd_def [symmetric] replace_year_def
          mk_date_def Let_def y_def split: if_splits)
    have nb: "1 \<le> days_before_month (y + 1) bm + bd"
      using vny year_day_bounds(1) [of bm bd "y + 1"] by (simp add: valid_date_def)
    have "days_before_month y bm + bd < days_before_month y tm + td"
      using lt bv tv by (intro year_day_mono) auto
    moreover have "days_before_month (y + 1) bm \<le> days_before_month y bm + 1"
      by (rule days_before_month_next_year)
    moreover have "n = L + days_before_month (y + 1) bm + bd - (days_before_month y tm + td)"
      unfolding n days_between_def toordinal_def L_def
      by (simp add: days_before_year_Suc y_def tm_def td_def)
    ultimately have "1 \<le> n" "n \<le> 366" using tb nb L by linarith+
    moreover have "\<not> (bm = tm \<and> bd = td)" using lt by auto
    ultimately show ?thesis by (simp add: bm_def bd_def tm_def td_def)
  next
    case False
    then have ge: "(bm = tm \<and> bd = td) \<or> (tm < bm \<or> (tm = bm \<and> td < bd))"
      by (auto simp: date_lt_def y_def tm_def td_def)
    have n: "n = (days_before_month y bm + bd) - (days_before_month y tm + td)"
      using r rty False
      by (auto simp: days_until_def bm_def [symmetric] bd_def [symmetric] days_between_def
          toordinal_def y_def tm_def td_def)
    show ?thesis
    proof (cases "bm = tm \<and> bd = td")
      case True
      then show ?thesis using n by (simp add: bm_def bd_def tm_def td_def)
    next
      case ne: False
      then have "tm < bm \<or> (tm = bm \<and> td < bd)" using ge by auto
      then have "days_before_month y tm + td < days_before_month y bm + bd"
        using bv tv by (intro year_day_mono) auto
      then have "1 \<le> n" "n \<le> 366" using n tb bb L by linarith+
      then show ?thesis using ne by (simp add: bm_def bd_def tm_def td_def)
    qed
  qed
qed


theorem days_until_range_witness:
  "valid_date \<lparr>year = 2024, month = 9, day = 27\<rparr> \<and>
   days_until \<lparr>year = 2024, month = 9, day = 27\<rparr> \<lparr>year = 1985, month = 12, day = 31\<rparr> = Inr 95 \<and>
   days_until \<lparr>year = 2024, month = 9, day = 27\<rparr> \<lparr>year = 1990, month = 9, day = 27\<rparr> = Inr 0"
proof -
  have v: "valid_date \<lparr>year = 2024, month = 9, day = 27\<rparr>"
    by code_simp
  have r: "days_until \<lparr>year = 2024, month = 9, day = 27\<rparr> \<lparr>year = 1985, month = 12, day = 31\<rparr> = Inr 95"
    by code_simp
  have r0: "days_until \<lparr>year = 2024, month = 9, day = 27\<rparr> \<lparr>year = 1990, month = 9, day = 27\<rparr> = Inr 0"
    by code_simp
  from days_until_range [OF v r] days_until_range [OF v r0] v r r0 show ?thesis
    by simp
qed

section \<open>Age of a validated birthdate\<close>

lemma parse_date_Some:
  assumes "parse_date current_year s = Some b"
  shows "valid_date b" and "1900 \<le> year b" and "year b \<le> current_year + 50"
  using assms
  by (auto simp: parse_date_def mk_date_def Let_def split: if_splits sum.splits)

lemma age_on_nonneg_iff: "0 \<le> age_on today b \<longleftrightarrow> date_le b today"
  by (auto simp: age_on_def md_gt_def date_le_def date_lt_def Let_def)

text \<open>
  Claim C3, as stated, fails: \<^verbatim>\<open>parse_date\<close> accepts years up to the current year plus 50, so
  a validated birthdate may lie after the reference date, and then the age is negative.
\<close>

theorem age_nonneg_counterexample:
  "parse_date 2024 ''2050-01-01'' = Some \<lparr>year = 2050, month = 1, day = 1\<rparr> \<and>
   age_on \<lparr>year = 2024, month = 6, day = 1\<rparr> \<lparr>year = 2050, month = 1, day = 1\<rparr> = - 26"
  by code_simp

text \<open>
  Claim C3, amended. For every birthdate that passed \<^verbatim>\<open>parse_date\<close> and every reference date
  \<open>today\<close>, the age is at least 0 exactly when the birthdate is not after \<open>today\<close>; in
  particular it is at least 0 for every birthdate on or before the reference date.
\<close>

theorem age_nonneg_of_past_birthdate:
  assumes "parse_date current_year s = Some b"
  shows "0 \<le> age_on today b \<longleftrightarrow> date_le b today"
  using assms by (simp add: age_on_nonneg_iff)

theorem age_nonneg_of_past_birthdate_witness:
  "parse_date 2024 ''1990-09-27'' = Some \<lparr>year = 1990, month = 9, day = 27\<rparr> \<and>
   date_le \<lparr>year = 1990, month = 9, day = 27\<rparr> \<lparr>year = 2024, month = 9, day = 27\<rparr> \<and>
   age_on \<lparr>year = 2024, month = 9, day = 27\<rparr> \<lparr>year = 1990, month = 9, day = 27\<rparr> = 34"
proof -
  have p: "parse_date 2024 ''1990-09-27'' = Some \<lparr>year = 1990, month = 9, day = 27\<rparr>"
    by code_simp
  have a: "age_on \<lparr>year = 2024, month = 9, day = 27\<rparr> \<lparr>year = 1990, month = 9, day = 27\<rparr> = 34"
    by code_simp
  from age_nonneg_of_past_birthdate [OF p, of "\<lparr>year = 2024, month = 9, day = 27\<rparr>"] p a
  show ?thesis by simp
qed

section \<open>The image URL check\<close>

text \<open>
  Claim C10, as stated, fails in both directions. The function looks at the whole lower-cased
  URL string, not at its parts: a host name of the list that occurs anywhere in the URL is
  enough, and an image extension counts only at the very end of the string, so a query after
  the path hides it.
\<close>

theorem validate_image_url_counterexample:
  "plain_http_url ''http://example.com/imgur.com'' \<and>
   validate_image_url plain_http_url ''http://example.com/imgur.com'' \<and>
   \<not> spec_validate_image_url plain_http_url ''http://example.com/imgur.com'' \<and>
   plain_http_url ''http://example.com/a.png?size=1'' \<and>
   \<not> validate_image_url plain_http_url ''http://example.com/a.png?size=1'' \<and>
   spec_validate_image_url plain_http_url ''http://example.com/a.png?size=1''"
  by code_simp

text \<open>
  Claim C10, amended. \<^verbatim>\<open>validate_image_url\<close> returns true for every empty input, and for a
  non-empty input it returns true if and only if the input is a well-formed URL and its
  lower-cased text either ends in one of the image extensions or contains one of the image
  host names as a substring.
\<close>

theorem validate_image_url_iff:
  "validate_image_url validators_url url \<longleftrightarrow>
     url = [] \<or>
     (validators_url url \<and>
      ((\<exists>ext \<in> set image_extensions. suffix ext (lower url)) \<or>
       (\<exists>host \<in> set image_hosts. sublist host (lower url))))"
  by (auto simp: validate_image_url_def Let_def list_ex_iff)

theorem validate_image_url_iff_witness:
  "validate_image_url plain_http_url [] \<and>
   validate_image_url plain_http_url ''https://i.imgur.com/abc'' \<and>
   sublist ''imgur.com'' (lower ''https://i.imgur.com/abc'') \<and>
   \<not> validate_image_url plain_http_url ''https://example.com/abc''"
proof -
  have e: "validate_image_url plain_http_url []"
    using validate_image_url_iff [of plain_http_url "[]"] by simp
  have w: "plain_http_url ''https://i.imgur.com/abc''"
    by code_simp
  have h: "sublist ''imgur.com'' (lower ''https://i.imgur.com/abc'')"
    by code_simp
  have m: "''imgur.com'' \<in> set image_hosts"
    by (simp add: image_hosts_def)
  have y: "validate_image_url plain_http_url ''https://i.imgur.com/abc''"
    using validate_image_url_iff [of plain_http_url "''https://i.imgur.com/abc''"] w h m by blast
  have n: "\<not> validate_image_url plain_http_url ''https://example.com/abc''"
    by code_simp
  from e y h n show ?thesis by simp
qed

section \<open>Duplicates, deletion and restoration\<close>

lemma filter_unique:
  assumes "distinct xs" "b \<in> set xs" "P b" "\<forall>x \<in> set xs. P x \<longrightarrow> x = b"
  shows "filter P xs = [b]"
  using assms
proof (induction xs)
  case Nil
  then show ?case by simp
next
  case (Cons x xs)
  show ?case
  proof (cases "x = b")
    case True
    then have "b \<notin> set xs" using Cons.prems(1) by simp
    then have "filter P xs = []"
      using Cons.prems(4) by (auto simp: filter_empty_conv)
    then show ?thesis using True Cons.prems(3) by simp
  next
    case False
    then have "\<not> P x" using Cons.prems(4) by auto
    moreover have "filter P xs = [b]"
    proof (rule Cons.IH)
      show "distinct xs" using Cons.prems(1) by simp
      show "b \<in> set xs" using Cons.prems(2) False by auto
      show "P b" by fact
      show "\<forall>x \<in> set xs. P x \<longrightarrow> x = b" using Cons.prems(4) by simp
    qed
    ultimately show ?thesis by simp
  qed
qed

lemma store_ok_distinct: "store_ok db \<Longrightarrow> distinct (birthdays db)"
  by (simp add: store_ok_def distinct_map)

lemma get_or_none_member:
  assumes "uid \<in> user_id ` set (users db)"
  shows "\<exists>u. get_or_none db uid = Some u \<and> user_id u = uid"
proof -
  have "\<exists>u \<in> set (users db). user_id u = uid" using assms by auto
  then obtain u where "find (\<lambda>u. user_id u = uid) (users db) = Some u"
    by (cases "find (\<lambda>u. user_id u = uid) (users db)") (auto simp: find_None_iff)
  then show ?thesis
    by (auto simp: get_or_none_def dest: find_Some_iff [THEN iffD1])
qed

lemma iexact_trans_name:
  "iexact x s \<Longrightarrow> iexact y s \<Longrightarrow> iexact x y"
  by (simp add: iexact_def)

text \<open>The rows of one person: in a store that satisfies the invariant, the filters of the
  operations find exactly the one row of the person.\<close>

lemma filter_name_single:
  assumes ok: "store_ok db" and b: "b \<in> set (birthdays db)"
    and u: "user b = uid" and n: "iexact (name b) s"
  shows "filter_name db uid s = [b]"
  unfolding filter_name_def
proof (rule filter_unique)
  show "distinct (birthdays db)" using ok by (rule store_ok_distinct)
  show "b \<in> set (birthdays db)" by fact
  show "user b = uid \<and> iexact (name b) s" using u n by simp
  show "\<forall>x \<in> set (birthdays db). user x = uid \<and> iexact (name x) s \<longrightarrow> x = b"
  proof (intro ballI impI)
    fix x assume x: "x \<in> set (birthdays db)" and "user x = uid \<and> iexact (name x) s"
    then have "same_person x b"
      using u n by (simp add: same_person_def iexact_def)
    then show "x = b" using ok x b by (auto simp: store_ok_def)
  qed
qed

lemma filter_name_deleted_single:
  assumes ok: "store_ok db" and b: "b \<in> set (birthdays db)"
    and u: "user b = uid" and n: "iexact (name b) s"
  shows "filter_name_deleted db uid s flag = (if is_deleted b = flag then [b] else [])"
proof -
  have "filter_name_deleted db uid s flag = filter (\<lambda>x. is_deleted x = flag) (filter_name db uid s)"
    by (auto simp: filter_name_deleted_def filter_name_def intro: filter_cong)
  then show ?thesis using filter_name_single [OF assms] by simp
qed

lemma first_filter_Some:
  assumes "first (filter P xs) = Some b"
  shows "b \<in> set xs" and "P b"
proof -
  obtain ys where "filter P xs = b # ys"
    using assms by (auto simp: first_def split: list.splits)
  then have "b \<in> set (filter P xs)" by simp
  then show "b \<in> set xs" and "P b" by simp_all
qed

lemma get_or_none_Some:
  "get_or_none db uid = Some u \<Longrightarrow> user_id u = uid"
  by (auto simp: get_or_none_def find_Some_iff)

lemma john_store_ok: "store_ok john_store"
  by (simp add: store_ok_def john_store_def john_def new_user_def same_person_def)

lemma add_john:
  "add_birthday plain_http_url 100 2024 empty_store 7 ''John'' ''1995-09-27'' ''family'' None None
     = (john_store, \<lparr>success = True,
          message = Added ''John'' \<lparr>year = 1995, month = 9, day = 27\<rparr> ''family'',
          birthday = Some john\<rparr>)"
  by code_simp

section \<open>The invariant holds in every store of the program\<close>

text \<open>The empty store satisfies the invariant and every operation that writes keeps it:
  \<^verbatim>\<open>get_or_create\<close> adds users only, \<^verbatim>\<open>save\<close> keeps key, owner and name of the row, and
  \<^verbatim>\<open>add_birthday\<close> creates a row only after its filter found none of that name for the
  user (\<^verbatim>\<open>title\<close> changes the case of letters only, which the comparison ignores).\<close>

lemma code_point_char_of: "n < 256 \<Longrightarrow> code_point (char_of n) = n"
  by (simp add: code_point_def)

lemma sql_upper_title_from: "sql_upper (title_from p s) = sql_upper s"
proof (induction s arbitrary: p)
  case Nil
  then show ?case by (simp add: sql_upper_def)
next
  case (Cons c cs)
  have t: "sql_upper (x # xs) = (if is_ascii_lower x then char_of (code_point x - 32) else x) # sql_upper xs"
    for x xs by (simp add: sql_upper_def)
  have b: "code_point c < 256" by (simp add: code_point_def)
  have lo: "\<not> is_ascii_lower (char_of (code_point c - 32))" if "is_ascii_lower c"
  proof -
    have "code_point c - 32 < 256" using b by simp
    from code_point_char_of [OF this] that show ?thesis
      by (auto simp: is_ascii_lower_def)
  qed
  have up0: "code_point (char_of (code_point c + 32)) = code_point c + 32" if "is_ascii_upper c"
  proof -
    have "code_point c + 32 < 256" using that by (simp add: is_ascii_upper_def)
    then show ?thesis by (rule code_point_char_of)
  qed
  have up1: "is_ascii_lower (char_of (code_point c + 32))" if "is_ascii_upper c"
    using that up0 [OF that] by (auto simp: is_ascii_lower_def is_ascii_upper_def)
  have up2: "char_of (code_point (char_of (code_point c + 32)) - 32) = c" if "is_ascii_upper c"
    using up0 [OF that] by (simp add: code_point_def)
  have up3: "\<not> is_ascii_lower c" if "is_ascii_upper c"
    using that by (auto simp: is_ascii_lower_def is_ascii_upper_def)
  consider (l) "is_ascii_lower c" | (u) "is_ascii_upper c" "\<not> is_ascii_lower c"
    | (n) "\<not> is_ascii_upper c" "\<not> is_ascii_lower c" by blast
  then show ?case
  proof cases
    case l
    show ?thesis
    proof (cases p)
      case True
      then show ?thesis using l Cons.IH by (simp add: t)
    next
      case False
      then show ?thesis using l lo [OF l] Cons.IH by (simp add: t)
    qed
  next
    case u
    show ?thesis
    proof (cases p)
      case True
      then show ?thesis using u up1 [OF u(1)] up2 [OF u(1)] Cons.IH by (simp add: t)
    next
      case False
      then show ?thesis using u Cons.IH by (simp add: t)
    qed
  next
    case n
    then show ?thesis using Cons.IH by (simp add: t)
  qed
qed

lemma iexact_title: "iexact x (title s) = iexact x s"
  by (simp add: iexact_def title_def sql_upper_title_from)


lemma store_ok_empty: "store_ok empty_store"
  by (simp add: store_ok_def empty_store_def)

lemma store_ok_users: "store_ok db \<Longrightarrow> store_ok (db\<lparr>users := users db @ us\<rparr>)"
  by (auto simp: store_ok_def)

lemma store_ok_map:
  assumes ok: "store_ok db"
    and g: "\<And>x. x \<in> set (birthdays db) \<Longrightarrow>
              bid (g x) = bid x \<and> user (g x) = user x \<and> name (g x) = name x"
  shows "store_ok (db\<lparr>birthdays := map g (birthdays db)\<rparr>)"
proof -
  have m: "map bid (map g (birthdays db)) = map bid (birthdays db)"
    using g by simp
  have d: "distinct (map bid (map g (birthdays db)))"
    using ok unfolding m by (simp add: store_ok_def)
  have r: "bid y < next_id db \<and> user y \<in> user_id ` set (users db)"
    if yy: "y \<in> set (map g (birthdays db))" for y
  proof -
    from yy have "y \<in> g ` set (birthdays db)" by simp
    then obtain x where x: "x \<in> set (birthdays db)" "y = g x" by (rule imageE)
    then show ?thesis using ok g [OF x(1)] by (simp add: store_ok_def)
  qed
  have s: "a = b"
    if a: "a \<in> set (map g (birthdays db))" and b: "b \<in> set (map g (birthdays db))"
      and sp: "same_person a b" for a b
  proof -
    from a have "a \<in> g ` set (birthdays db)" by simp
    then obtain x where x: "x \<in> set (birthdays db)" "a = g x" by (rule imageE)
    from b have "b \<in> g ` set (birthdays db)" by simp
    then obtain y where y: "y \<in> set (birthdays db)" "b = g y" by (rule imageE)
    have "same_person x y"
      using sp g [OF x(1)] g [OF y(1)] x(2) y(2) by (simp add: same_person_def)
    then have "x = y" using ok x(1) y(1) by (auto simp: store_ok_def)
    then show ?thesis using x(2) y(2) by simp
  qed
  show ?thesis
    unfolding store_ok_def using d r s by simp
qed

lemma store_ok_save:
  assumes ok: "store_ok db" and b: "b \<in> set (birthdays db)"
    and k: "bid b' = bid b" "user b' = user b" "name b' = name b"
  shows "store_ok (save db b' now)"
  unfolding save_def
proof (rule store_ok_map [OF ok])
  fix x assume x: "x \<in> set (birthdays db)"
  let ?g = "\<lambda>x. if bid x = bid b' then b'\<lparr>updated_at := now\<rparr> else x"
  show "bid (?g x) = bid x \<and> user (?g x) = user x \<and> name (?g x) = name x"
  proof (cases "bid x = bid b'")
    case True
    have "inj_on bid (set (birthdays db))"
      using ok by (simp add: store_ok_def distinct_map)
    then have "x = b" using True k(1) x b by (auto dest: inj_onD)
    then show ?thesis using True k by simp
  next
    case False
    then show ?thesis by simp
  qed
qed

lemma store_ok_create:
  assumes ok: "store_ok db" and u: "uid \<in> user_id ` set (users db)"
    and n: "\<And>x. x \<in> set (birthdays db) \<Longrightarrow> user x = uid \<Longrightarrow> \<not> iexact (name x) nm"
  shows "store_ok (fst (create db uid nm bd cat img nts now))"
proof -
  define b where "b = \<lparr>bid = next_id db, user = uid, name = nm, birthdate = bd, category = cat,
               image_url = img, notes_text = nts, created_at = now, updated_at = now,
               is_deleted = False, deleted_at = None\<rparr>"
  have c: "fst (create db uid nm bd cat img nts now)
             = db\<lparr>birthdays := birthdays db @ [b], next_id := next_id db + 1\<rparr>"
    by (simp add: create_def b_def Let_def)
  have lt: "bid x < next_id db" if "x \<in> set (birthdays db)" for x
    using ok that by (simp add: store_ok_def)
  have nb: "next_id db \<notin> bid ` set (birthdays db)"
    using lt by force
  have d: "distinct (map bid (birthdays db @ [b]))"
    using ok nb by (simp add: store_ok_def b_def)
  have r: "bid y < next_id db + 1 \<and> user y \<in> user_id ` set (users db)"
    if "y \<in> set (birthdays db @ [b])" for y
  proof (cases "y = b")
    case True
    then show ?thesis using u by (simp add: b_def)
  next
    case False
    then have "y \<in> set (birthdays db)" using that by simp
    then show ?thesis using ok by (force simp: store_ok_def)
  qed
  have nsp: "\<not> same_person x b \<and> \<not> same_person b x" if "x \<in> set (birthdays db)" for x
    using n [OF that] by (auto simp: same_person_def b_def iexact_def)
  have s: "x = y"
    if "x \<in> set (birthdays db @ [b])" "y \<in> set (birthdays db @ [b])" "same_person x y" for x y
  proof (cases "x = b")
    case xb: True
    show ?thesis
    proof (cases "y = b")
      case True
      then show ?thesis using xb by simp
    next
      case False
      then have "y \<in> set (birthdays db)" using that(2) by simp
      then show ?thesis using nsp that(3) xb by blast
    qed
  next
    case xb: False
    then have x: "x \<in> set (birthdays db)" using that(1) by simp
    show ?thesis
    proof (cases "y = b")
      case True
      then show ?thesis using nsp [OF x] that(3) by blast
    next
      case False
      then have "y \<in> set (birthdays db)" using that(2) by simp
      then show ?thesis using ok x that(3) by (auto simp: store_ok_def)
    qed
  qed
  show ?thesis
    unfolding c store_ok_def using d r s by simp
qed


lemma first_None: "first xs = None \<Longrightarrow> xs = []"
  by (cases xs) (simp_all add: first_def)

lemma get_or_create_ok:
  assumes ok: "store_ok db" and g: "get_or_create db uid now = (db1, u)"
  shows "store_ok db1" and "user_id u = uid" and "uid \<in> user_id ` set (users db1)"
proof -
  show "store_ok db1"
    using ok g store_ok_users [OF ok, of "[new_user uid now]"]
    by (auto simp: get_or_create_def split: option.splits)
  show "user_id u = uid"
    using g get_or_none_Some [of db uid]
    by (auto simp: get_or_create_def new_user_def split: option.splits)
  show "uid \<in> user_id ` set (users db1)"
  proof (cases "get_or_none db uid")
    case None
    then have "db1 = db\<lparr>users := users db @ [new_user uid now]\<rparr>"
      using g by (auto simp: get_or_create_def)
    then show ?thesis by (simp add: new_user_def)
  next
    case (Some u')
    then have "db1 = db" using g by (auto simp: get_or_create_def)
    moreover have "u' \<in> set (users db)" "user_id u' = uid"
      using Some by (auto simp: get_or_none_def find_Some_iff)
    ultimately show ?thesis by force
  qed
qed

lemma add_birthday_ok:
  assumes ok: "store_ok db"
  shows "store_ok (fst (add_birthday validators_url now current_year db uid nm birthdate_str cat
                          img nts))"
proof (cases "validate_name nm \<and> parse_date current_year birthdate_str \<noteq> None \<and>
    validate_category cat \<and> \<not> (truthy img \<and> \<not> validate_image_url validators_url (the img))")
  case False
  then have "fst (add_birthday validators_url now current_year db uid nm birthdate_str cat
                          img nts) = db"
    by (auto simp: add_birthday_def split: option.splits)
  then show ?thesis using ok by simp
next
  case True
  then obtain bd where bd: "parse_date current_year birthdate_str = Some bd" by auto
  have v: "validate_name nm" "validate_category cat"
    "(truthy img \<and> \<not> validate_image_url validators_url (the img)) = False"
    using True by blast+
  obtain db1 u where g: "get_or_create db uid now = (db1, u)"
    by (cases "get_or_create db uid now")
  note g1 = get_or_create_ok [OF ok g]
  show ?thesis
  proof (cases "first (filter_name db1 (user_id u) (strip nm))")
    case None
    then have e: "filter_name db1 uid (strip nm) = []"
      using g1(2) first_None by auto
    have n: "\<not> iexact (name x) (title (strip nm))"
      if "x \<in> set (birthdays db1)" "user x = uid" for x
    proof -
      have "x \<notin> set (filter_name db1 uid (strip nm))" using e by simp
      then have "\<not> iexact (name x) (strip nm)" using that by (simp add: filter_name_def)
      then show ?thesis by (simp add: iexact_title)
    qed
    have "store_ok (fst (create db1 uid (title (strip nm)) bd (lower cat) img nts now))"
      by (rule store_ok_create [OF g1(1) g1(3) n])
    then show ?thesis
      using bd g g1(2) None
      by (simp add: add_birthday_def split_beta v)
  next
    case (Some existing)
    have ex: "existing \<in> set (birthdays db1)"
      using first_filter_Some(1) [OF Some [unfolded filter_name_def]] .
    show ?thesis
    proof (cases "is_deleted existing")
      case False
      then show ?thesis using bd g Some g1(1) by (simp add: add_birthday_def v)
    next
      case del: True
      have "store_ok (save db1 (existing\<lparr>birthdate := bd, category := lower cat,
                           image_url := img, notes_text := nts, is_deleted := False,
                           deleted_at := None, updated_at := now\<rparr>) now)"
        by (rule store_ok_save [OF g1(1) ex]) simp_all
      then show ?thesis using bd g Some del by (simp add: add_birthday_def v Let_def)
    qed
  qed
qed

lemma delete_birthday_ok:
  assumes ok: "store_ok db"
  shows "store_ok (fst (delete_birthday now db uid nm))"
proof (cases "get_or_none db uid")
  case None
  then show ?thesis using ok by (simp add: delete_birthday_def)
next
  case (Some u)
  show ?thesis
  proof (cases "first (filter_name_deleted db (user_id u) (strip nm) False)")
    case None
    then show ?thesis using ok Some by (simp add: delete_birthday_def)
  next
    case b: (Some b)
    have "b \<in> set (birthdays db)"
      using first_filter_Some(1) [OF b [unfolded filter_name_deleted_def]] .
    then have "store_ok (save db (b\<lparr>is_deleted := True, deleted_at := Some now\<rparr>) now)"
      by (rule store_ok_save [OF ok]) simp_all
    then show ?thesis using Some b by (simp add: delete_birthday_def)
  qed
qed

lemma restore_deleted_birthday_ok:
  assumes ok: "store_ok db"
  shows "store_ok (fst (restore_deleted_birthday now db uid nm))"
proof (cases "get_or_none db uid")
  case None
  then show ?thesis using ok by (simp add: restore_deleted_birthday_def)
next
  case (Some u)
  show ?thesis
  proof (cases "first (filter_name_deleted db (user_id u) (strip nm) True)")
    case None
    then show ?thesis using ok Some by (simp add: restore_deleted_birthday_def)
  next
    case b: (Some b)
    have "b \<in> set (birthdays db)"
      using first_filter_Some(1) [OF b [unfolded filter_name_deleted_def]] .
    then have "store_ok (save db (b\<lparr>is_deleted := False, deleted_at := None,
                                      updated_at := now\<rparr>) now)"
      by (rule store_ok_save [OF ok]) simp_all
    then show ?thesis using Some b by (simp add: restore_deleted_birthday_def)
  qed
qed

lemma update_birthday_ok:
  assumes ok: "store_ok db"
  shows "store_ok (fst (update_birthday validators_url now current_year db uid nm new_date_str
                          new_category new_image_url new_notes))"
proof (cases "get_or_none db uid")
  case None
  then show ?thesis using ok by (simp add: update_birthday_def)
next
  case (Some u)
  show ?thesis
  proof (cases "first (filter_name_deleted db (user_id u) (strip nm) False)")
    case None
    then show ?thesis using ok Some by (simp add: update_birthday_def)
  next
    case b: (Some b)
    have m: "b \<in> set (birthdays db)"
      using first_filter_Some(1) [OF b [unfolded filter_name_deleted_def]] .
    have "store_ok (save db b' now)" if "bid b' = bid b" "user b' = user b" "name b' = name b"
      for b' using store_ok_save [OF ok m that] .
    then show ?thesis using Some b ok
      by (simp add: update_birthday_def Let_def)
  qed
qed

lemma reachable_store_ok: "reachable db \<Longrightarrow> store_ok db"
proof (induction rule: reachable.induct)
  case initial
  show ?case by (rule store_ok_empty)
next
  case (user_created db u)
  then show ?case by (simp add: store_ok_users)
next
  case (added db validators_url now current_year uid nm birthdate_str cat img nts)
  then show ?case by (simp add: add_birthday_ok)
next
  case (deleted db now uid nm)
  then show ?case by (simp add: delete_birthday_ok)
next
  case (updated db validators_url now current_year uid nm new_date_str new_category
      new_image_url new_notes)
  then show ?case by (simp add: update_birthday_ok)
next
  case (restored db now uid nm)
  then show ?case by (simp add: restore_deleted_birthday_ok)
qed

lemma john_store_reachable: "reachable john_store"
  using reachable.added [OF reachable.initial, of plain_http_url 100 2024 7 "''John''"
      "''1995-09-27''" "''family''" None None] add_john
  by simp

section \<open>Duplicate, restore and delete\<close>

text \<open>
  Claim C8. In a store that satisfies the invariant of the birthday table (every store of the
  program does: \<open>reachable_store_ok\<close>), if the user has an active record with the name
  (compared case-insensitively, after stripping), then \<^verbatim>\<open>add_birthday\<close> with that name fails
  and leaves the store as it is, whatever the other arguments are; when the arguments pass
  the input validation (as those of a repeated call do) the failure is the duplicate message
  \<^verbatim>\<open>Birthday for {name} already exists\<close>; and in the store after the call the name appears
  exactly once among the user's active records.
\<close>

theorem add_birthday_duplicate:
  assumes ok: "store_ok db"
    and ex: "b \<in> set (birthdays db)" "user b = uid" "iexact (name b) (strip nm)" "\<not> is_deleted b"
  shows "fst (add_birthday validators_url now current_year db uid nm birthdate_str cat img nts) = db \<and>
         \<not> success (snd (add_birthday validators_url now current_year db uid nm birthdate_str cat img nts)) \<and>
         (validate_name nm \<and> parse_date current_year birthdate_str \<noteq> None \<and> validate_category cat \<and>
          (truthy img \<longrightarrow> validate_image_url validators_url (the img)) \<longrightarrow>
          add_birthday validators_url now current_year db uid nm birthdate_str cat img nts
            = (db, failure (Already_exists nm))) \<and>
         active_named
           (fst (add_birthday validators_url now current_year db uid nm birthdate_str cat img nts))
           uid nm = [b]"
proof -
  have "uid \<in> user_id ` set (users db)"
    using ok ex(1,2) by (auto simp: store_ok_def)
  then obtain u where u: "get_or_none db uid = Some u" "user_id u = uid"
    using get_or_none_member by blast
  then have goc: "get_or_create db uid now = (db, u)"
    by (simp add: get_or_create_def)
  have f: "first (filter_name db uid (strip nm)) = Some b"
    using filter_name_single [OF ok ex(1,2,3)] by (simp add: first_def)
  have a: "active_named db uid nm = [b]"
    using filter_name_deleted_single [OF ok ex(1,2,3), of False] ex(4)
    by (simp add: active_named_def)
  show ?thesis
    using goc u(2) f ex(4) a
    by (auto simp: add_birthday_def failure_def split: option.splits)
qed


theorem add_birthday_duplicate_witness:
  "add_birthday plain_http_url 100 2024 empty_store 7 ''John'' ''1995-09-27'' ''family'' None None
     = (john_store, \<lparr>success = True,
          message = Added ''John'' \<lparr>year = 1995, month = 9, day = 27\<rparr> ''family'',
          birthday = Some john\<rparr>) \<and>
   add_birthday plain_http_url 101 2024 john_store 7 ''john '' ''1995-09-27'' ''family'' None None
     = (john_store, failure (Already_exists ''john '')) \<and>
   active_named
     (fst (add_birthday plain_http_url 101 2024 john_store 7 ''john '' ''1995-09-27'' ''family''
             None None)) 7 ''john '' = [john]"
proof -
  have m: "john \<in> set (birthdays john_store)" "user john = 7" "\<not> is_deleted john"
    by (simp_all add: john_store_def john_def)
  have i: "iexact (name john) (strip ''john '')"
    by code_simp
  have v: "validate_name ''john ''" "parse_date 2024 ''1995-09-27'' \<noteq> None"
    "validate_category ''family''" "truthy None \<longrightarrow> validate_image_url plain_http_url (the None)"
    by code_simp+
  from add_birthday_duplicate [OF john_store_ok m(1,2) i m(3), of plain_http_url 101 2024
      "''1995-09-27''" "''family''" None None] v add_john
  show ?thesis by blast
qed


text \<open>
  Claim C9. In a store that satisfies the invariant of the birthday table (every store of the
  program does: \<open>reachable_store_ok\<close>): \<^verbatim>\<open>restore_deleted_birthday\<close> on a name
  whose record is active returns the failure \<^verbatim>\<open>No deleted birthday found for {name}\<close> and
  leaves the store as it is; and after a successful \<^verbatim>\<open>delete_birthday\<close> a second
  \<^verbatim>\<open>delete_birthday\<close> of the same name returns the failure \<^verbatim>\<open>Birthday for {name} not found\<close>
  and leaves the store as it is.
\<close>

theorem restore_active_and_delete_twice:
  assumes ok: "store_ok db"
  shows "(\<forall>b \<in> set (birthdays db).
            user b = uid \<and> iexact (name b) (strip nm) \<and> \<not> is_deleted b \<longrightarrow>
            restore_deleted_birthday now db uid nm = (db, failure (No_deleted_found nm))) \<and>
         (\<forall>db1 r. delete_birthday now db uid nm = (db1, r) \<and> success r \<longrightarrow>
            delete_birthday now' db1 uid nm = (db1, failure (Not_found nm)))"
proof (intro conjI ballI allI impI)
  fix b
  assume b: "b \<in> set (birthdays db)"
    and h: "user b = uid \<and> iexact (name b) (strip nm) \<and> \<not> is_deleted b"
  have "uid \<in> user_id ` set (users db)"
    using ok b h by (auto simp: store_ok_def)
  then obtain u where u: "get_or_none db uid = Some u" "user_id u = uid"
    using get_or_none_member by blast
  have "filter_name_deleted db uid (strip nm) True = []"
    using filter_name_deleted_single [OF ok b, of uid "strip nm" True] h by simp
  then show "restore_deleted_birthday now db uid nm = (db, failure (No_deleted_found nm))"
    using u by (simp add: restore_deleted_birthday_def first_def)
next
  fix db1 r
  assume d: "delete_birthday now db uid nm = (db1, r) \<and> success r"
  then obtain u where u: "get_or_none db uid = Some u"
    by (cases "get_or_none db uid") (auto simp: delete_birthday_def failure_def)
  then have uid: "user_id u = uid" by (rule get_or_none_Some)
  let ?P = "\<lambda>x. user x = uid \<and> iexact (name x) (strip nm) \<and> is_deleted x = False"
  obtain b where f: "first (filter ?P (birthdays db)) = Some b"
    using d u uid
    by (cases "first (filter ?P (birthdays db))")
       (auto simp: delete_birthday_def failure_def filter_name_deleted_def)
  have b: "b \<in> set (birthdays db)" and pb: "?P b"
    using first_filter_Some [OF f] by auto
  define b' where "b' = b\<lparr>is_deleted := True, deleted_at := Some now\<rparr>"
  have db1: "db1 = save db b' now"
    using d u uid f by (simp add: delete_birthday_def filter_name_deleted_def b'_def)
  have u1: "get_or_none db1 uid = Some u"
    using u by (simp add: db1 save_def get_or_none_def)
  have none: "\<not> ?P x" if x: "x \<in> set (birthdays db1)" for x
  proof -
    obtain y where y: "y \<in> set (birthdays db)"
      and xy: "x = (if bid y = bid b' then b'\<lparr>updated_at := now\<rparr> else y)"
      using x by (auto simp: db1 save_def)
    show ?thesis
    proof (cases "bid y = bid b'")
      case True
      then show ?thesis using xy by (simp add: b'_def)
    next
      case False
      then have "x = y" and "y \<noteq> b" using xy by (auto simp: b'_def)
      moreover have "?P y \<longrightarrow> y = b"
      proof
        assume "?P y"
        then have "same_person y b" using pb by (simp add: same_person_def iexact_def)
        then show "y = b" using ok y b by (auto simp: store_ok_def)
      qed
      ultimately show ?thesis by blast
    qed
  qed
  then have "filter_name_deleted db1 uid (strip nm) False = []"
    by (auto simp: filter_name_deleted_def filter_empty_conv)
  then show "delete_birthday now' db1 uid nm = (db1, failure (Not_found nm))"
    using u1 uid by (simp add: delete_birthday_def first_def)
qed



theorem restore_active_and_delete_twice_witness:
  "restore_deleted_birthday 101 john_store 7 ''John''
     = (john_store, failure (No_deleted_found ''John'')) \<and>
   success (snd (delete_birthday 101 john_store 7 ''John'')) \<and>
   delete_birthday 102 (fst (delete_birthday 101 john_store 7 ''John'')) 7 ''John''
     = (fst (delete_birthday 101 john_store 7 ''John''), failure (Not_found ''John''))"
proof -
  have m: "john \<in> set (birthdays john_store)"
    by (simp add: john_store_def)
  have p: "user john = 7 \<and> iexact (name john) (strip ''John'') \<and> \<not> is_deleted john"
    by code_simp
  have s: "success (snd (delete_birthday 101 john_store 7 ''John''))"
    by code_simp
  have d: "delete_birthday 101 john_store 7 ''John''
             = (fst (delete_birthday 101 john_store 7 ''John''),
                snd (delete_birthday 101 john_store 7 ''John''))"
    by simp
  from restore_active_and_delete_twice [OF john_store_ok, of 7 "''John''" 101 102] m p s d
  show ?thesis by blast
qed

section \<open>The next-birthday loop on a record of February 29\<close>

lemma days_until_error: "days_until cd bd = Inl e \<Longrightarrow> e = ValueError"
  by (auto simp: days_until_def replace_month_day_def replace_year_def mk_date_def Let_def
           split: sum.splits if_splits)

lemma next_birthday_loop_error:
  "b \<in> set bs \<Longrightarrow> days_until cd (birthdate b) = Inl e \<Longrightarrow>
   next_birthday_loop cd bs found = Inl ValueError"
proof (induction bs arbitrary: found)
  case Nil
  then show ?case by simp
next
  case (Cons x xs)
  show ?case
  proof (cases "days_until cd (birthdate x)")
    case (Inl e')
    then show ?thesis using days_until_error [OF Inl] by simp
  next
    case (Inr d)
    then have "x \<noteq> b" using Cons.prems(2) by auto
    then have "b \<in> set xs" using Cons.prems(1) by simp
    from Cons.IH [OF this Cons.prems(2)] show ?thesis using Inr by simp
  qed
qed

lemma days_until_feb29:
  "month bd = 2 \<Longrightarrow> day bd = 29 \<Longrightarrow> \<not> is_leap (year cd) \<Longrightarrow> days_until cd bd = Inl ValueError"
  by (simp add: days_until_def replace_month_day_def mk_date_def Let_def valid_date_def
       days_in_month_def DAYS_IN_MONTH_def)

text \<open>
  Claim C5: for every user that has at least one active record whose birthdate is February 29,
  \<open>get_user_stats\<close> evaluated with a current date in a year that is not a leap year raises
  \<open>ValueError\<close> (from \<^verbatim>\<open>current_date.replace(month=2, day=29)\<close>, which nothing catches) instead
  of returning the statistics.
\<close>

theorem get_user_stats_feb29_raises:
  assumes "get_or_none db uid = Some u"
    and "b \<in> set (birthdays db)" and "user b = user_id u" and "\<not> is_deleted b"
    and "month (birthdate b) = 2" and "day (birthdate b) = 29"
    and "\<not> is_leap (year today)"
  shows "get_user_stats today db uid = Inl ValueError"
proof -
  let ?bs = "filter (\<lambda>b. user b = user_id u \<and> \<not> is_deleted b) (birthdays db)"
  have mem: "b \<in> set ?bs" using assms(2,3,4) by simp
  have ne: "?bs \<noteq> []"
  proof
    assume "?bs = []"
    with mem show False by (simp only: set_simps empty_iff)
  qed
  have "next_birthday_loop today ?bs None = Inl ValueError"
    by (rule next_birthday_loop_error [OF mem days_until_feb29 [OF assms(5,6,7)]])
  then show ?thesis using ne assms(1)
    by (simp add: get_user_stats_def Let_def)
qed

theorem get_user_stats_feb29_raises_witness:
  "get_or_none leap_store 7 = Some (new_user 7 100) \<and> leap \<in> set (birthdays leap_store) \<and>
   user leap = user_id (new_user 7 100) \<and> \<not> is_deleted leap \<and>
   month (birthdate leap) = 2 \<and> day (birthdate leap) = 29 \<and> \<not> is_leap 2023 \<and>
   get_user_stats \<lparr>year = 2023, month = 6, day = 1\<rparr> leap_store 7 = Inl ValueError"
  using get_user_stats_feb29_raises
    [of leap_store 7 "new_user 7 100" leap "\<lparr>year = 2023, month = 6, day = 1\<rparr>"]
  by (simp add: leap_store_def get_or_none_def new_user_def leap_def is_leap_def)

section \<open>The age printed by the upcoming reminder\<close>

lemma send_upcoming_reminder_ages:
  "map line_age (snd (send_upcoming_reminder today u upcoming))
     = map (\<lambda>(b, days_ahead).
              age_on today (birthdate b)
                + (if md_gt (month (birthdate b), day (birthdate b)) (month today, day today)
                   then 2 else 1)) upcoming"
  by (auto simp: send_upcoming_reminder_def age_on_def Let_def)

text \<open>
  Claim C1: the age annotated on an upcoming reminder. On 2024-09-26, for a user in the time
  zone of the server, John (born 1995-09-27) is matched one day ahead and turns 29 on the next
  day, which is also \<open>age_on today + 1\<close>; the reminder that \<open>check_upcoming_birthdays\<close> sends
  prints the age 30, the difference of the years plus one.
\<close>

theorem check_upcoming_birthdays_age_of_john:
  "check_upcoming_birthdays (\<lambda>tz. \<lparr>year = 2024, month = 9, day = 26\<rparr>)
       \<lparr>year = 2024, month = 9, day = 26\<rparr> john_store
     = [(7, [\<lparr>line_name = ''John'', line_days_ahead = 1, line_age = 30,
              line_category = ''family'', line_has_image = False, line_has_notes = False\<rparr>])]
   \<and> age_on \<lparr>year = 2024, month = 9, day = 26\<rparr> (birthdate john) + 1 = 29"
  by code_simp

section \<open>The analytics report: its parts\<close>

lemma df_ages:
  "map df_age (filter (\<lambda>r. \<not> df_is_deleted r) (df_data now (birthdays db))) = active_ages now db"
  by (simp add: df_data_def active_ages_def filter_map comp_def)

lemma get_analytics_report_empty:
  "birthdays db = [] \<Longrightarrow> get_analytics_report now db = Inl ''No data available for analysis''"
  by (simp add: get_analytics_report_def get_all_birthdays_def)

lemma get_analytics_report_Inr:
  assumes "birthdays db \<noteq> []"
  shows "\<exists>r. get_analytics_report now db = Inr r"
  using assms by (simp add: get_analytics_report_def get_all_birthdays_def Let_def)

lemma report_fields:
  assumes "get_analytics_report now db = Inr r"
  shows "birthdays db \<noteq> []"
    and "category_distribution r = category_stats (get_all_birthdays db False)"
    and "report_age_statistics r = age_stats (active_ages now db)"
    and "report_monthly_distribution r =
           map (\<lambda>(i, month_name).
                  (month_name,
                   count_if (\<lambda>r. df_birth_month r = i \<and> \<not> df_is_deleted r)
                     (df_data now (birthdays db))))
               (zip [1..12] month_names)"
    and "image_usage_rate (report_engagement r) =
           percentage (count_if (\<lambda>r. df_has_image r \<and> \<not> df_is_deleted r) (df_data now (birthdays db)))
             (int (length (get_all_birthdays db False)))"
    and "notes_usage_rate (report_engagement r) =
           percentage (count_if (\<lambda>r. df_has_notes r \<and> \<not> df_is_deleted r) (df_data now (birthdays db)))
             (int (length (get_all_birthdays db False)))"
    and "deletion_rate (report_overview r) =
           percentage (int (length (birthdays db)) - int (length (get_all_birthdays db False)))
             (int (length (birthdays db)))"
    and "active_birthdays (report_overview r) = int (length (get_all_birthdays db False))"
proof -
  show ne: "birthdays db \<noteq> []"
    using assms by (auto simp: get_analytics_report_def get_all_birthdays_def Let_def)
  have a: "get_all_birthdays db True = birthdays db" by (simp add: get_all_birthdays_def)
  note d = get_analytics_report_def Let_def a
  show "category_distribution r = category_stats (get_all_birthdays db False)"
    using ne assms by (auto simp: d)
  show "report_age_statistics r = age_stats (active_ages now db)"
    using ne assms by (auto simp: d df_ages)
  show "report_monthly_distribution r =
           map (\<lambda>(i, month_name).
                  (month_name,
                   count_if (\<lambda>r. df_birth_month r = i \<and> \<not> df_is_deleted r)
                     (df_data now (birthdays db))))
               (zip [1..12] month_names)"
    using ne assms by (auto simp: d)
  show "image_usage_rate (report_engagement r) =
           percentage (count_if (\<lambda>r. df_has_image r \<and> \<not> df_is_deleted r) (df_data now (birthdays db)))
             (int (length (get_all_birthdays db False)))"
    using ne assms by (auto simp: d)
  show "notes_usage_rate (report_engagement r) =
           percentage (count_if (\<lambda>r. df_has_notes r \<and> \<not> df_is_deleted r) (df_data now (birthdays db)))
             (int (length (get_all_birthdays db False)))"
    using ne assms by (auto simp: d)
  show "deletion_rate (report_overview r) =
           percentage (int (length (birthdays db)) - int (length (get_all_birthdays db False)))
             (int (length (birthdays db)))"
    using ne assms by (auto simp: d)
  show "active_birthdays (report_overview r) = int (length (get_all_birthdays db False))"
    using ne assms by (auto simp: d)
qed

lemma sort_nth_mono: "i \<le> j \<Longrightarrow> j < length xs \<Longrightarrow> sort xs ! i \<le> sort xs ! j"
  using sorted_nth_mono [of "sort xs" i j] by simp















lemma count_if_nonneg: "0 \<le> count_if P xs"
  by (simp add: count_if_def)



lemma length_filter_conj_le:
  "length (filter (\<lambda>x. P x \<and> Q x) xs) \<le> length (filter Q xs)"
  by (induction xs) auto

lemma count_active_le:
  "count_if (\<lambda>r. P r \<and> \<not> df_is_deleted r) (df_data now (birthdays db))
     \<le> int (length (get_all_birthdays db False))"
proof -
  have "length (filter (\<lambda>r. P r \<and> \<not> df_is_deleted r) (df_data now (birthdays db)))
          \<le> length (filter (\<lambda>r. \<not> df_is_deleted r) (df_data now (birthdays db)))"
    by (rule length_filter_conj_le)
  also have "\<dots> = length (get_all_birthdays db False)"
    by (simp add: df_data_def get_all_birthdays_def filter_map comp_def)
  finally show ?thesis by (simp add: count_if_def)
qed

lemma upto_1_12: "[1..12] = [1, 2, 3, 4, 5, 6, 7, 8, 9, 10, 11, 12 :: int]"
  by code_simp

lemma report_monthly_keys:
  assumes "get_analytics_report now db = Inr r"
  shows "keys (report_monthly_distribution r) = month_names"
  by (simp add: report_fields(4) [OF assms] keys_def upto_1_12 month_names_def)

lemma no_active_count:
  assumes "\<forall>b \<in> set (birthdays (db :: store)). is_deleted b"
  shows "count_if (\<lambda>r. P r \<and> \<not> df_is_deleted r) (df_data now (birthdays db)) = 0"
proof -
  have "filter (\<lambda>b. \<not> is_deleted b) (birthdays db) = []"
    using assms by (simp add: filter_empty_conv)
  then have "int (length (get_all_birthdays db False)) = 0"
    by (simp add: get_all_birthdays_def)
  then show ?thesis
    using count_active_le [of P now db] count_if_nonneg [of "\<lambda>r. P r \<and> \<not> df_is_deleted r"
        "df_data now (birthdays db)"]
    by linarith
qed

lemma report_monthly_zero:
  assumes "get_analytics_report now db = Inr r" and "\<forall>b \<in> set (birthdays db). is_deleted b"
  shows "report_monthly_distribution r = map (\<lambda>m. (m, 0)) month_names"
  by (simp add: report_fields(4) [OF assms(1)] no_active_count [OF assms(2)] upto_1_12
        month_names_def)

lemma pair_store_ages:
  "active_ages \<lparr>year = 2024, month = 12, day = 1\<rparr> pair_store = [29, 34]"
  by code_simp

lemma john_store_ages:
  "active_ages \<lparr>year = 2024, month = 12, day = 1\<rparr> john_store = [29]"
  by code_simp

section \<open>The monthly distribution without records\<close>

text \<open>
  Claim C2, amended. For a user that exists and has no active record, \<open>get_user_stats\<close>
  returns the statistics of its first branch, without error, and their monthly distribution
  is the empty dictionary: it has no month as a key. Over a store without any birthday row
  \<open>get_analytics_report\<close> returns the error \<^verbatim>\<open>No data available for analysis\<close>. As soon as the
  store has a row, the report has the twelve months as the keys of its monthly distribution,
  and every count is 0 when no row is active.
\<close>

theorem monthly_distribution_without_records:
  "(get_or_none db uid = Some u \<and>
      filter (\<lambda>b. user b = user_id u \<and> \<not> is_deleted b) (birthdays db) = [] \<longrightarrow>
      get_user_stats today db uid = Inr (Some no_birthdays_stats) \<and>
      monthly_distribution no_birthdays_stats = []) \<and>
   (birthdays db' = [] \<longrightarrow>
      get_analytics_report now db' = Inl ''No data available for analysis'') \<and>
   (birthdays db'' \<noteq> [] \<longrightarrow>
      (\<exists>r. get_analytics_report now db'' = Inr r \<and>
           keys (report_monthly_distribution r) = month_names \<and>
           ((\<forall>b \<in> set (birthdays db''). is_deleted b) \<longrightarrow>
              report_monthly_distribution r = map (\<lambda>m. (m, 0)) month_names)))"
proof (intro conjI impI)
  assume "get_or_none db uid = Some u \<and>
      filter (\<lambda>b. user b = user_id u \<and> \<not> is_deleted b) (birthdays db) = []"
  then show "get_user_stats today db uid = Inr (Some no_birthdays_stats)"
    by (simp add: get_user_stats_def)
next
  show "monthly_distribution no_birthdays_stats = []"
    by (simp add: no_birthdays_stats_def)
next
  assume "birthdays db' = []"
  then show "get_analytics_report now db' = Inl ''No data available for analysis''"
    by (rule get_analytics_report_empty)
next
  assume "birthdays db'' \<noteq> []"
  then obtain r where r: "get_analytics_report now db'' = Inr r"
    using get_analytics_report_Inr by blast
  show "\<exists>r. get_analytics_report now db'' = Inr r \<and>
           keys (report_monthly_distribution r) = month_names \<and>
           ((\<forall>b \<in> set (birthdays db''). is_deleted b) \<longrightarrow>
              report_monthly_distribution r = map (\<lambda>m. (m, 0)) month_names)"
    using r report_monthly_keys [OF r] report_monthly_zero [OF r] by blast
qed

theorem monthly_distribution_without_records_witness:
  "get_or_none lonely_store 7 = Some (new_user 7 100) \<and>
   filter (\<lambda>b. user b = user_id (new_user 7 100) \<and> \<not> is_deleted b) (birthdays lonely_store) = [] \<and>
   get_user_stats \<lparr>year = 2024, month = 6, day = 1\<rparr> lonely_store 7
     = Inr (Some no_birthdays_stats) \<and>
   birthdays empty_store = [] \<and>
   get_analytics_report \<lparr>year = 2024, month = 6, day = 1\<rparr> empty_store
     = Inl ''No data available for analysis'' \<and>
   birthdays removed_store \<noteq> [] \<and> list_all is_deleted (birthdays removed_store) \<and>
   (\<exists>r. get_analytics_report \<lparr>year = 2024, month = 6, day = 1\<rparr> removed_store = Inr r \<and>
        report_monthly_distribution r = map (\<lambda>m. (m, 0)) month_names)"
proof -
  have a: "get_or_none lonely_store 7 = Some (new_user 7 100)"
    "filter (\<lambda>b. user b = user_id (new_user 7 100) \<and> \<not> is_deleted b) (birthdays lonely_store) = []"
    by (simp_all add: lonely_store_def get_or_none_def new_user_def)
  have b: "birthdays empty_store = []"
    by (simp add: empty_store_def)
  have c: "birthdays removed_store \<noteq> []" "\<forall>b \<in> set (birthdays removed_store). is_deleted b"
    by (simp_all add: removed_store_def)
  from monthly_distribution_without_records [of lonely_store 7 "new_user 7 100"
      "\<lparr>year = 2024, month = 6, day = 1\<rparr>" empty_store "\<lparr>year = 2024, month = 6, day = 1\<rparr>"
      removed_store] a b c
  show ?thesis unfolding list_all_iff by blast
qed

text \<open>The statistics of user 7 without records have no month, and the report over the empty
  store is the error.\<close>

theorem monthly_distribution_counterexample:
  "get_user_stats \<lparr>year = 2024, month = 6, day = 1\<rparr> lonely_store 7
     = Inr (Some no_birthdays_stats) \<and>
   keys (monthly_distribution no_birthdays_stats) = [] \<and>
   keys (monthly_distribution no_birthdays_stats) \<noteq> MONTH_NAMES \<and>
   get_analytics_report \<lparr>year = 2024, month = 6, day = 1\<rparr> empty_store
     = Inl ''No data available for analysis''"
  by code_simp

section \<open>The median age\<close>

text \<open>
  Claim C6, amended. For every report over a store with at least one active record, the median
  age is the element at index \<open>n div 2\<close> of the ages of the active records sorted ascending.
  That is the upper of the two middle elements when \<open>n\<close> is even: the lower-middle element is
  at most the median, and it is the median when \<open>n\<close> is odd.
\<close>

theorem median_is_upper_middle:
  assumes "get_analytics_report now db = Inr r" and "active_ages now db \<noteq> []"
  shows "median (report_age_statistics r) = upper_middle (active_ages now db) \<and>
         lower_middle (active_ages now db) \<le> median (report_age_statistics r) \<and>
         (odd (length (active_ages now db)) \<longrightarrow>
            median (report_age_statistics r) = lower_middle (active_ages now db))"
proof -
  let ?ages = "active_ages now db"
  have n: "0 < length ?ages" using assms(2) by simp
  have m: "median (report_age_statistics r) = upper_middle ?ages"
    using report_fields(3) [OF assms(1)] assms(2) by (simp add: age_stats_def upper_middle_def)
  have "(length ?ages - 1) div 2 \<le> length ?ages div 2" by (simp add: div_le_mono)
  moreover have "length ?ages div 2 < length ?ages" using n by simp
  ultimately have l: "lower_middle ?ages \<le> upper_middle ?ages"
    unfolding lower_middle_def upper_middle_def by (rule sort_nth_mono)
  have o: "lower_middle ?ages = upper_middle ?ages" if od: "odd (length ?ages)"
  proof -
    from od obtain k where "length ?ages = 2 * k + 1" by (rule oddE)
    then show ?thesis by (simp add: lower_middle_def upper_middle_def)
  qed
  show ?thesis using m l o by simp
qed

theorem median_is_upper_middle_witness:
  "(\<exists>r. get_analytics_report \<lparr>year = 2024, month = 12, day = 1\<rparr> pair_store = Inr r \<and>
        active_ages \<lparr>year = 2024, month = 12, day = 1\<rparr> pair_store = [29, 34] \<and>
        median (report_age_statistics r) = 34) \<and>
   (\<exists>r. get_analytics_report \<lparr>year = 2024, month = 12, day = 1\<rparr> john_store = Inr r \<and>
        odd (length (active_ages \<lparr>year = 2024, month = 12, day = 1\<rparr> john_store)) \<and>
        median (report_age_statistics r) = 29)"
proof -
  let ?d = "\<lparr>year = 2024, month = 12, day = 1\<rparr>"
  obtain r where r: "get_analytics_report ?d pair_store = Inr r"
    using get_analytics_report_Inr [of pair_store ?d] by (auto simp: pair_store_def)
  obtain r' where r': "get_analytics_report ?d john_store = Inr r'"
    using get_analytics_report_Inr [of john_store ?d] by (auto simp: john_store_def)
  have u: "upper_middle [29, 34] = 34" "upper_middle [29] = 29" "lower_middle [29] = 29"
    by code_simp+
  from median_is_upper_middle [OF r] median_is_upper_middle [OF r'] r r' u
  show ?thesis by (simp add: pair_store_ages john_store_ages)
qed

text \<open>With John (29) and Mary (34) on 2024-12-01 the median of the report is 34; the
  lower-middle element of the sorted ages is 29.\<close>

theorem median_lower_middle_counterexample:
  "(case get_analytics_report \<lparr>year = 2024, month = 12, day = 1\<rparr> pair_store of
      Inl e \<Rightarrow> None | Inr r \<Rightarrow> Some (median (report_age_statistics r))) = Some 34 \<and>
   sort (active_ages \<lparr>year = 2024, month = 12, day = 1\<rparr> pair_store) = [29, 34] \<and>
   lower_middle (active_ages \<lparr>year = 2024, month = 12, day = 1\<rparr> pair_store) = 29"
proof -
  let ?d = "\<lparr>year = 2024, month = 12, day = 1\<rparr>"
  obtain r where r: "get_analytics_report ?d pair_store = Inr r"
    using get_analytics_report_Inr [of pair_store ?d] by (auto simp: pair_store_def)
  have "age_stats [29, 34] = \<lparr>average = 63 / 2, age_min = 29, age_max = 34, median = 34\<rparr>"
    by code_simp
  then have "median (report_age_statistics r) = 34"
    by (simp add: report_fields(3) [OF r] pair_store_ages)
  moreover have "sort [29, 34 :: int] = [29, 34]" "lower_middle [29, 34] = 29"
    by code_simp+
  ultimately show ?thesis by (simp add: r pair_store_ages)
qed

section \<open>The percentages of the report\<close>




end
